theory Spec2Isabelle
  imports Complex_Main "HOL-Library.Log_Nat" "HOL-Library.Multiset"
begin

section \<open>Batched tridiagonal solver (Thomas algorithm) of the MITgcm demo kernels\<close>

text \<open>
  The kernels in \<^verbatim>\<open>src/kokkos/mitgcm_demo/src/kernel.cpp\<close> and
  \<^verbatim>\<open>src/kokkos/mitgcm_demo_optimized.reference/src/kernel.cpp\<close> solve \<open>ni\<close>
  independent tridiagonal systems of \<open>nk\<close> levels each.

  The element type of the views is a type variable \<open>'a\<close> that only carries the
  \<^emph>\<open>syntax\<close> of the operations the code uses (\<open>0\<close>, \<open>1\<close>, \<open>*\<close>, \<open>-\<close>,
  \<open>/\<close>): the sort \<open>{zero,one,times,minus,inverse}\<close> has no axioms. A theorem proved
  at this type uses no law of arithmetic and therefore holds for rounded (binary64)
  arithmetic as well as for exact arithmetic. Theorems that need more say so in their type:
  a field for exact arithmetic, or the type \<open>double\<close> of the binary64 model below. The
  test \<^verbatim>\<open>x != 0.0\<close> of the code is \<open>x \<noteq> 0\<close>.

  The counts \<^verbatim>\<open>ni\<close>, \<^verbatim>\<open>nk\<close> and the indices are natural numbers; the solvers are
  meant for \<open>ni \<ge> 1\<close> and \<open>nk \<ge> 1\<close> (with \<open>nk = 0\<close> the code indexes outside its
  views), and the theorems that depend on it assume so.
\<close>

subsection \<open>Views and memory\<close>

text \<open>
  A rank-2 \<^verbatim>\<open>View<double**>\<close> is a function from index pairs to values; \<open>store\<close> is the
  assignment \<^verbatim>\<open>v(i,k) = x\<close>. Only indices inside the extents are meaningful.
\<close>

type_synonym 'a view = "nat \<Rightarrow> nat \<Rightarrow> 'a"

definition store :: "'a view \<Rightarrow> nat \<Rightarrow> nat \<Rightarrow> 'a \<Rightarrow> 'a view" where
  "store v i k x = v(i := (v i)(k := x))"

text \<open>
  The four views a solver is called with. The views are distinct allocations (as in
  \<^verbatim>\<open>main\<close>), so a write to one never changes another.
\<close>

record 'a views =
  a_view :: "'a view"
  b_view :: "'a view"
  c_view :: "'a view"
  y_view :: "'a view"

text \<open>The memory of the naive solver: the caller's views and its two temporaries.\<close>

record 'a naive_views = "'a views" +
  c_prime_view :: "'a view"
  y_prime_view :: "'a view"

text \<open>
  \<^verbatim>\<open>parallel_for(label, n, body)\<close> runs \<open>body i\<close> for every \<open>0 \<le> i < n\<close>; the
  model runs the iterations one after the other in ascending order. The iterations of a
  kernel of the naive solver touch disjoint rows, and any other order gives the same memory
  (lemma \<open>launch_order_independent\<close>).
\<close>

definition parallel_for :: "nat \<Rightarrow> (nat \<Rightarrow> 's \<Rightarrow> 's) \<Rightarrow> 's \<Rightarrow> 's" where
  "parallel_for n body s = fold body [0..<n] s"

subsection \<open>The naive row-parallel solver (reference variant)\<close>

text \<open>Kernel \<^verbatim>\<open>forward_sweep_first\<close> (lines 94--103).\<close>

definition forward_sweep_first ::
  "nat \<Rightarrow> 'a::{zero,one,times,minus,inverse} naive_views \<Rightarrow> 'a naive_views" where
  "forward_sweep_first i s =
     (if b_view s i 0 \<noteq> 0 then
        (let recVar = 1 / b_view s i 0;
             s1 = s\<lparr>c_prime_view := store (c_prime_view s) i 0 (c_view s i 0 * recVar)\<rparr>
         in s1\<lparr>y_prime_view := store (y_prime_view s1) i 0 (y_view s1 i 0 * recVar)\<rparr>)
      else
        (let s1 = s\<lparr>c_prime_view := store (c_prime_view s) i 0 0\<rparr>
         in s1\<lparr>y_prime_view := store (y_prime_view s1) i 0 0\<rparr>))"

text \<open>The local \<^verbatim>\<open>tmpVar\<close> of kernel \<^verbatim>\<open>forward_sweep\<close> (line 108).\<close>

definition tmpVar ::
  "'a::{zero,one,times,minus,inverse} naive_views \<Rightarrow> nat \<Rightarrow> nat \<Rightarrow> 'a" where
  "tmpVar s i k = b_view s i k - a_view s i k * c_prime_view s i (k - 1)"

text \<open>Kernel \<^verbatim>\<open>forward_sweep\<close> at level \<open>k\<close> (lines 107--117).\<close>

definition forward_sweep ::
  "nat \<Rightarrow> nat \<Rightarrow> 'a::{zero,one,times,minus,inverse} naive_views \<Rightarrow> 'a naive_views" where
  "forward_sweep k i s =
     (if tmpVar s i k \<noteq> 0 then
        (let recVar = 1 / tmpVar s i k;
             s1 = s\<lparr>c_prime_view := store (c_prime_view s) i k (c_view s i k * recVar)\<rparr>
         in s1\<lparr>y_prime_view := store (y_prime_view s1) i k
                 ((y_view s1 i k - a_view s1 i k * y_prime_view s1 i (k - 1)) * recVar)\<rparr>)
      else
        (let s1 = s\<lparr>c_prime_view := store (c_prime_view s) i k 0\<rparr>
         in s1\<lparr>y_prime_view := store (y_prime_view s1) i k 0\<rparr>))"

text \<open>Kernels \<^verbatim>\<open>backward_sweep_last\<close> (lines 123--125) and \<^verbatim>\<open>backward_sweep\<close>
  at level \<open>k\<close> (lines 129--131).\<close>

definition backward_sweep_last ::
  "nat \<Rightarrow> nat \<Rightarrow> 'a::{zero,one,times,minus,inverse} naive_views \<Rightarrow> 'a naive_views" where
  "backward_sweep_last nk i s =
     s\<lparr>y_view := store (y_view s) i (nk - 1) (y_prime_view s i (nk - 1))\<rparr>"

definition backward_sweep ::
  "nat \<Rightarrow> nat \<Rightarrow> 'a::{zero,one,times,minus,inverse} naive_views \<Rightarrow> 'a naive_views" where
  "backward_sweep k i s =
     s\<lparr>y_view := store (y_view s) i k
          (y_prime_view s i k - c_prime_view s i k * y_view s i (k + 1))\<rparr>"

text \<open>
  The temporaries \<^verbatim>\<open>c_prime\<close>, \<^verbatim>\<open>y_prime\<close> are fresh views (lines 89--90); a Kokkos
  view is zero-filled when it is allocated.
\<close>

definition naive_alloc :: "'a::{zero,one,times,minus,inverse} views \<Rightarrow> 'a naive_views" where
  "naive_alloc v =
     \<lparr>a_view = a_view v, b_view = b_view v, c_view = c_view v, y_view = y_view v,
      c_prime_view = (\<lambda>i k. 0), y_prime_view = (\<lambda>i k. 0)\<rparr>"

text \<open>
  The forward sweep up to (excluding) level \<open>m\<close>: the first-level kernel and the loop
  \<^verbatim>\<open>for (int k = 1; k < m; k++)\<close> of kernel launches. \<open>naive_forward ni nk v\<close> is the
  memory when the whole forward sweep is done, and \<open>naive_forward ni k v\<close> the memory when
  the launch for level \<open>k\<close> starts.
\<close>

definition naive_forward ::
  "nat \<Rightarrow> nat \<Rightarrow> 'a::{zero,one,times,minus,inverse} views \<Rightarrow> 'a naive_views" where
  "naive_forward ni m v =
     fold (\<lambda>k. parallel_for ni (forward_sweep k)) [1..<m]
       (parallel_for ni forward_sweep_first (naive_alloc v))"

text \<open>
  The whole body of \<^verbatim>\<open>solve_tridiagonal_kokkos_naive\<close>; the backward loop
  \<^verbatim>\<open>for (int k = nk-2; k >= 0; k--)\<close> visits \<open>nk-2, \<dots>, 0\<close>, which is
  \<open>rev [0..<nk-1]\<close> (empty when \<open>nk = 1\<close>).
\<close>

definition naive_run ::
  "nat \<Rightarrow> nat \<Rightarrow> 'a::{zero,one,times,minus,inverse} views \<Rightarrow> 'a naive_views" where
  "naive_run ni nk v =
     fold (\<lambda>k. parallel_for ni (backward_sweep k)) (rev [0..<nk - 1])
       (parallel_for ni (backward_sweep_last nk) (naive_forward ni nk v))"

text \<open>What the caller sees after the call: its four views (the temporaries are dropped).\<close>

definition solve_tridiagonal_kokkos_naive ::
  "nat \<Rightarrow> nat \<Rightarrow> 'a::{zero,one,times,minus,inverse} views \<Rightarrow> 'a views" where
  "solve_tridiagonal_kokkos_naive ni nk v =
     (let s = naive_run ni nk v
      in \<lparr>a_view = a_view s, b_view = b_view s, c_view = c_view s, y_view = y_view s\<rparr>)"

subsection \<open>The solver of the demo variant\<close>

text \<open>\<^verbatim>\<open>solve_tridiagonal_kokkos\<close> of \<^verbatim>\<open>src/kokkos/mitgcm_demo/src/kernel.cpp\<close>,
  lines 9--55, kernel by kernel.\<close>

definition demo_forward_sweep_first ::
  "nat \<Rightarrow> 'a::{zero,one,times,minus,inverse} naive_views \<Rightarrow> 'a naive_views" where
  "demo_forward_sweep_first i s =
     (if b_view s i 0 \<noteq> 0 then
        (let recVar = 1 / b_view s i 0;
             s1 = s\<lparr>c_prime_view := store (c_prime_view s) i 0 (c_view s i 0 * recVar)\<rparr>
         in s1\<lparr>y_prime_view := store (y_prime_view s1) i 0 (y_view s1 i 0 * recVar)\<rparr>)
      else
        (let s1 = s\<lparr>c_prime_view := store (c_prime_view s) i 0 0\<rparr>
         in s1\<lparr>y_prime_view := store (y_prime_view s1) i 0 0\<rparr>))"

definition demo_forward_sweep ::
  "nat \<Rightarrow> nat \<Rightarrow> 'a::{zero,one,times,minus,inverse} naive_views \<Rightarrow> 'a naive_views" where
  "demo_forward_sweep k i s =
     (let tmpVar = b_view s i k - a_view s i k * c_prime_view s i (k - 1) in
      if tmpVar \<noteq> 0 then
        (let recVar = 1 / tmpVar;
             s1 = s\<lparr>c_prime_view := store (c_prime_view s) i k (c_view s i k * recVar)\<rparr>
         in s1\<lparr>y_prime_view := store (y_prime_view s1) i k
                 ((y_view s1 i k - a_view s1 i k * y_prime_view s1 i (k - 1)) * recVar)\<rparr>)
      else
        (let s1 = s\<lparr>c_prime_view := store (c_prime_view s) i k 0\<rparr>
         in s1\<lparr>y_prime_view := store (y_prime_view s1) i k 0\<rparr>))"

definition demo_backward_sweep_last ::
  "nat \<Rightarrow> nat \<Rightarrow> 'a::{zero,one,times,minus,inverse} naive_views \<Rightarrow> 'a naive_views" where
  "demo_backward_sweep_last nk i s =
     s\<lparr>y_view := store (y_view s) i (nk - 1) (y_prime_view s i (nk - 1))\<rparr>"

definition demo_backward_sweep ::
  "nat \<Rightarrow> nat \<Rightarrow> 'a::{zero,one,times,minus,inverse} naive_views \<Rightarrow> 'a naive_views" where
  "demo_backward_sweep k i s =
     s\<lparr>y_view := store (y_view s) i k
          (y_prime_view s i k - c_prime_view s i k * y_view s i (k + 1))\<rparr>"

definition solve_tridiagonal_kokkos ::
  "nat \<Rightarrow> nat \<Rightarrow> 'a::{zero,one,times,minus,inverse} views \<Rightarrow> 'a views" where
  "solve_tridiagonal_kokkos ni nk v =
     (let s0 = \<lparr>a_view = a_view v, b_view = b_view v, c_view = c_view v, y_view = y_view v,
                c_prime_view = (\<lambda>i k. 0), y_prime_view = (\<lambda>i k. 0)\<rparr>;
          s1 = parallel_for ni demo_forward_sweep_first s0;
          s2 = fold (\<lambda>k. parallel_for ni (demo_forward_sweep k)) [1..<nk] s1;
          s3 = parallel_for ni (demo_backward_sweep_last nk) s2;
          s4 = fold (\<lambda>k. parallel_for ni (demo_backward_sweep k)) (rev [0..<nk - 1]) s3
      in \<lparr>a_view = a_view s4, b_view = b_view s4, c_view = c_view s4, y_view = y_view s4\<rparr>)"

subsection \<open>The fused team-local solver\<close>

text \<open>
  \<^verbatim>\<open>solve_tridiagonal_kokkos_optimized\<close> (lines 21--78) dispatches one kernel over
  \<^verbatim>\<open>TeamPolicy<ExecSpace>(ni, Kokkos::AUTO)\<close>: a league of \<open>ni\<close> teams, system \<open>i\<close> being
  solved by the team of league rank \<open>i\<close>. The Kokkos library is not part of the sources;
  two facts of its interface enter the model.

  \<^item> Every member of a team executes the team lambda, and \<^verbatim>\<open>Kokkos::AUTO\<close> leaves the
    number of members of a team to the runtime: it is the parameter \<open>team_size\<close>. The
    lambda of lines 36--74 contains no \<^verbatim>\<open>Kokkos::single\<close>, no test of
    \<^verbatim>\<open>team.team_rank()\<close> and no barrier, so every member executes all of it, on the same
    system and on the same team scratch. The model runs the members of a team one after the
    other; this is one of the schedules of a team (the members are not synchronised).

  \<^item> \<^verbatim>\<open>get_shmem(size, level)\<close> of a scratch handle takes the scratch level as its optional
    second argument (\<open>-1\<close>, the default, stands for the level the handle was made for) and
    returns the null pointer when that level has fewer than \<open>size\<close> bytes left.
    \<^verbatim>\<open>set_scratch_size(0, PerTeam(2*nk*sizeof(double)))\<close> (line 33) gives level \<open>0\<close> its
    \<open>2 * nk * 8\<close> bytes and level \<open>1\<close> none.

  A successful request returns a region of its own, so \<^verbatim>\<open>c_prime\<close> and \<^verbatim>\<open>y_prime\<close> are
  two arrays of the team, and the model records for each whether its pointer is null. A
  store through a null pointer is undefined behaviour: the model sets the flag \<open>faulted\<close>
  and executes nothing after it. Scratch memory is not initialised, so the contents
  \<open>c_prime0 i\<close>, \<open>y_prime0 i\<close> that team \<open>i\<close> finds in its arrays are arbitrary.
\<close>

record 'a team_views = "'a views" +
  c_prime_scratch :: "nat \<Rightarrow> 'a"
  y_prime_scratch :: "nat \<Rightarrow> 'a"
  faulted :: bool

text \<open>The scratch handle of a team member: the bytes left at level \<open>0\<close> and at level \<open>1\<close>.\<close>

record scratch_space =
  left_L0 :: nat
  left_L1 :: nat

text \<open>\<^verbatim>\<open>get_shmem(size, level)\<close>: whether the pointer returned is non-null, and the handle
  after the call.\<close>

definition get_shmem :: "nat \<Rightarrow> int \<Rightarrow> scratch_space \<Rightarrow> bool \<times> scratch_space" where
  "get_shmem bytes level sp =
     (if (if level = - 1 then 0 else level) = 0
      then (if bytes \<le> left_L0 sp then (True, sp\<lparr>left_L0 := left_L0 sp - bytes\<rparr>)
            else (False, sp))
      else (if bytes \<le> left_L1 sp then (True, sp\<lparr>left_L1 := left_L1 sp - bytes\<rparr>)
            else (False, sp)))"

text \<open>The body of the forward loop, lines 56--64.\<close>

definition team_forward_step ::
  "nat \<Rightarrow> nat \<Rightarrow> 'a::{zero,one,times,minus,inverse} team_views \<Rightarrow> 'a team_views" where
  "team_forward_step i k s =
     (let tmpVar = b_view s i k - a_view s i k * c_prime_scratch s (k - 1) in
      if tmpVar \<noteq> 0 then
        (let recVar = 1 / tmpVar;
             s1 = s\<lparr>c_prime_scratch := (c_prime_scratch s)(k := c_view s i k * recVar)\<rparr>
         in s1\<lparr>y_prime_scratch := (y_prime_scratch s1)
                 (k := (y_view s1 i k - a_view s1 i k * y_prime_scratch s1 (k - 1)) * recVar)\<rparr>)
      else
        (let s1 = s\<lparr>c_prime_scratch := (c_prime_scratch s)(k := 0)\<rparr>
         in s1\<lparr>y_prime_scratch := (y_prime_scratch s1)(k := 0)\<rparr>))"

text \<open>The body of the backward loop, line 72.\<close>

definition team_backward_step ::
  "nat \<Rightarrow> nat \<Rightarrow> 'a::{zero,one,times,minus,inverse} team_views \<Rightarrow> 'a team_views" where
  "team_backward_step i k s =
     s\<lparr>y_view := store (y_view s) i k
          (y_prime_scratch s k - c_prime_scratch s k * y_view s i (k + 1))\<rparr>"

text \<open>
  Lines 44--73 as one member executes them, given whether its two pointers are non-null.
  Both branches of lines 45--52 store through both pointers before any view is written, so
  with a null pointer the member faults with the views as it found them.
\<close>

definition team_member_body ::
  "nat \<Rightarrow> bool \<Rightarrow> bool \<Rightarrow> nat \<Rightarrow>
   'a::{zero,one,times,minus,inverse} team_views \<Rightarrow> 'a team_views" where
  "team_member_body nk c_prime_ok y_prime_ok i s =
     (if faulted s then s
      else if \<not> (c_prime_ok \<and> y_prime_ok) then s\<lparr>faulted := True\<rparr>
      else
        (let s0 =
               (if b_view s i 0 \<noteq> 0 then
                  (let recVar = 1 / b_view s i 0;
                       s' = s\<lparr>c_prime_scratch := (c_prime_scratch s)(0 := c_view s i 0 * recVar)\<rparr>
                   in s'\<lparr>y_prime_scratch := (y_prime_scratch s')(0 := y_view s' i 0 * recVar)\<rparr>)
                else
                  (let s' = s\<lparr>c_prime_scratch := (c_prime_scratch s)(0 := 0)\<rparr>
                   in s'\<lparr>y_prime_scratch := (y_prime_scratch s')(0 := 0)\<rparr>));
             s1 = fold (team_forward_step i) [1..<nk] s0;
             s2 = s1\<lparr>y_view := store (y_view s1) i (nk - 1) (y_prime_scratch s1 (nk - 1))\<rparr>
         in fold (team_backward_step i) (rev [0..<nk - 1]) s2))"

text \<open>
  The team lambda \<^verbatim>\<open>thomas_algorithm_single_kernel\<close>, lines 36--74, for a member of the
  team of league rank \<open>i\<close>: the two requests of lines 41--42 on the member's handle, then
  lines 44--73. The second argument of the request of line 42 is \<^verbatim>\<open>nk * sizeof(double)\<close>.
\<close>

definition thomas_algorithm_single_kernel ::
  "nat \<Rightarrow> nat \<Rightarrow> 'a::{zero,one,times,minus,inverse} team_views \<Rightarrow> 'a team_views" where
  "thomas_algorithm_single_kernel nk i s =
     (let sp0 = \<lparr>left_L0 = 2 * nk * 8, left_L1 = 0\<rparr>;
          (c_prime_ok, sp1) = get_shmem (nk * 8) (- 1) sp0;
          (y_prime_ok, sp2) = get_shmem (nk * 8) (int (nk * 8)) sp1
      in team_member_body nk c_prime_ok y_prime_ok i s)"

text \<open>
  \<^verbatim>\<open>parallel_for\<close> over a team policy: the teams one after the other, and in team \<open>i\<close>
  each of the \<open>team_size\<close> members executes the lambda.
\<close>

definition team_parallel_for ::
  "nat \<Rightarrow> nat \<Rightarrow> (nat \<Rightarrow> nat \<Rightarrow> 'a) \<Rightarrow> (nat \<Rightarrow> nat \<Rightarrow> 'a) \<Rightarrow>
   (nat \<Rightarrow> 'a team_views \<Rightarrow> 'a team_views) \<Rightarrow> 'a team_views \<Rightarrow> 'a team_views" where
  "team_parallel_for league_size team_size c_prime0 y_prime0 lambda s =
     parallel_for league_size
       (\<lambda>i t. fold (\<lambda>rank. lambda i) [0..<team_size]
                 (t\<lparr>c_prime_scratch := c_prime0 i, y_prime_scratch := y_prime0 i\<rparr>)) s"

text \<open>The memory the dispatch starts from: the caller's views, nothing faulted.\<close>

definition team_alloc ::
  "(nat \<Rightarrow> nat \<Rightarrow> 'a) \<Rightarrow> (nat \<Rightarrow> nat \<Rightarrow> 'a) \<Rightarrow> 'a views \<Rightarrow> 'a team_views" where
  "team_alloc c_prime0 y_prime0 v =
     \<lparr>a_view = a_view v, b_view = b_view v, c_view = c_view v, y_view = y_view v,
      c_prime_scratch = c_prime0 0, y_prime_scratch = y_prime0 0, faulted = False\<rparr>"

text \<open>\<^verbatim>\<open>solve_tridiagonal_kokkos_optimized\<close>: the memory after the dispatch.\<close>

definition solve_tridiagonal_kokkos_optimized ::
  "nat \<Rightarrow> nat \<Rightarrow> nat \<Rightarrow> (nat \<Rightarrow> nat \<Rightarrow> 'a) \<Rightarrow> (nat \<Rightarrow> nat \<Rightarrow> 'a) \<Rightarrow>
   'a::{zero,one,times,minus,inverse} views \<Rightarrow> 'a team_views" where
  "solve_tridiagonal_kokkos_optimized ni nk team_size c_prime0 y_prime0 v =
     team_parallel_for ni team_size c_prime0 y_prime0 (thomas_algorithm_single_kernel nk)
       (team_alloc c_prime0 y_prime0 v)"

text \<open>
  The same dispatch with the outcome of the two scratch requests given from outside. It
  separates the two ways in which the kernel can go wrong: \<open>dispatch_with_scratch\<close> with
  both pointers valid is what the kernel would do if line 42 obtained its array.
\<close>

definition dispatch_with_scratch ::
  "nat \<Rightarrow> nat \<Rightarrow> nat \<Rightarrow> bool \<Rightarrow> bool \<Rightarrow> (nat \<Rightarrow> nat \<Rightarrow> 'a) \<Rightarrow> (nat \<Rightarrow> nat \<Rightarrow> 'a) \<Rightarrow>
   'a::{zero,one,times,minus,inverse} views \<Rightarrow> 'a team_views" where
  "dispatch_with_scratch ni nk team_size c_prime_ok y_prime_ok c_prime0 y_prime0 v =
     team_parallel_for ni team_size c_prime0 y_prime0
       (team_member_body nk c_prime_ok y_prime_ok) (team_alloc c_prime0 y_prime0 v)"

subsection \<open>Rounded arithmetic: binary64\<close>

text \<open>
  The element type of the code is \<^verbatim>\<open>double\<close>. The type \<open>double\<close> below holds the finite
  binary64 values as the rational numbers they denote, and every operation rounds the exact
  result to the nearest binary64 number, ties to even: a 53-bit significand, and multiples
  of \<open>2\<^sup>-\<^sup>1\<^sup>0\<^sup>7\<^sup>4\<close> below \<open>2\<^sup>-\<^sup>1\<^sup>0\<^sup>2\<^sup>2\<close> (gradual underflow). Overflow, infinities, NaN and
  the sign of zero are not modelled: the type agrees with IEEE-754 arithmetic as long as
  operands and results are finite, that is of magnitude below \<open>2\<^sup>1\<^sup>0\<^sup>2\<^sup>4\<close>. Every
  operation of the code is rounded on its own (a product and a sum are not contracted into
  one fused multiply-add). A divisor is never zero in the solvers (every division is
  guarded).
\<close>

definition round_half_even :: "rat \<Rightarrow> int" where
  "round_half_even s =
     (let f = \<lfloor>s\<rfloor>; r = s - of_int f
      in if r < 1 / 2 then f else if 1 / 2 < r then f + 1 else if even f then f else f + 1)"

text \<open>
  \<open>ilog2 q\<close> is \<open>\<lfloor>log\<^sub>2 q\<rfloor>\<close> for \<open>q > 0\<close>: for \<open>q \<ge> 1\<close> the bit length of \<open>\<lfloor>q\<rfloor>\<close> less
  one, and for \<open>q < 1\<close> the negated bit length of \<open>\<lceil>1/q\<rceil> - 1\<close>.
\<close>

definition ilog2 :: "rat \<Rightarrow> int" where
  "ilog2 q = (if 1 \<le> q then bitlen \<lfloor>q\<rfloor> - 1 else - bitlen (\<lceil>1 / q\<rceil> - 1))"

definition round_binary64 :: "rat \<Rightarrow> rat" where
  "round_binary64 q =
     (if q = 0 then 0
      else (let e = max (ilog2 \<bar>q\<bar> - 52) (- 1074)
            in sgn q * of_int (round_half_even (\<bar>q\<bar> * 2 powi (- e))) * 2 powi e))"

datatype double = Double (rat_of: rat)

instantiation double :: "{zero,one,plus,times,minus,inverse}"
begin

definition zero_double :: double where
  "zero_double = Double 0"

definition one_double :: double where
  "one_double = Double 1"

fun plus_double :: "double \<Rightarrow> double \<Rightarrow> double" where
  "plus_double (Double x) (Double y) = Double (round_binary64 (x + y))"

fun times_double :: "double \<Rightarrow> double \<Rightarrow> double" where
  "times_double (Double x) (Double y) = Double (round_binary64 (x * y))"

fun minus_double :: "double \<Rightarrow> double \<Rightarrow> double" where
  "minus_double (Double x) (Double y) = Double (round_binary64 (x - y))"

fun divide_double :: "double \<Rightarrow> double \<Rightarrow> double" where
  "divide_double (Double x) (Double y) = Double (round_binary64 (x / y))"

fun inverse_double :: "double \<Rightarrow> double" where
  "inverse_double (Double x) = Double (round_binary64 (1 / x))"

instance ..

end

text \<open>A decimal literal of the code denotes the binary64 number nearest to it; the
  conversion \<^verbatim>\<open>double(m)\<close> of an \<^verbatim>\<open>int\<close> rounds in the same way (it is exact below
  \<open>2\<^sup>5\<^sup>3\<close>).\<close>

definition literal :: "rat \<Rightarrow> double" where
  "literal q = Double (round_binary64 q)"

definition double_of_int :: "nat \<Rightarrow> double" where
  "double_of_int m = Double (round_binary64 (of_nat m))"

subsection \<open>The problem generator\<close>

text \<open>
  Kernel \<^verbatim>\<open>init_matrices\<close> of \<^verbatim>\<open>main\<close> (lines 165--186), in binary64 as the code
  computes it. \<^verbatim>\<open>std::sin\<close> and \<^verbatim>\<open>std::cos\<close> belong to the C library, which is not part
  of the sources: they are the parameters \<open>std_sin\<close> and \<open>std_cos\<close>. \<^verbatim>\<open>main\<close> fixes
  \<^verbatim>\<open>Nr = 50\<close>; here \<open>Nr\<close> is a parameter.
\<close>

text \<open>\<^verbatim>\<open>constexpr double pi = 3.141592653589793\<close> (line 153).\<close>

definition pi_const :: double where
  "pi_const = literal 3.141592653589793"

definition init_matrices_body ::
  "(double \<Rightarrow> double) \<Rightarrow> (double \<Rightarrow> double) \<Rightarrow> nat \<Rightarrow> nat \<Rightarrow> nat \<Rightarrow> nat \<Rightarrow>
   double views \<Rightarrow> double views" where
  "init_matrices_body std_sin std_cos n Nr i k s =
     (let s1 = (if k > 0 then s\<lparr>a_view := store (a_view s) i k (literal (- 0.5))\<rparr>
                else s\<lparr>a_view := store (a_view s) i k (literal 0.0)\<rparr>);
          s2 = s1\<lparr>b_view := store (b_view s1) i k
                 (literal 2.0 +
                  literal 0.1 * std_sin (pi_const * double_of_int (i + 1) / double_of_int n))\<rparr>;
          s3 = (if k < Nr - 1 then s2\<lparr>c_view := store (c_view s2) i k (literal (- 0.5))\<rparr>
                else s2\<lparr>c_view := store (c_view s2) i k (literal 0.0)\<rparr>)
      in s3\<lparr>y_view := store (y_view s3) i k
              (std_sin (pi_const * double_of_int (i + 1) / double_of_int n) *
               std_cos (pi_const * double_of_int (k + 1) / double_of_int Nr))\<rparr>)"

text \<open>\<^verbatim>\<open>parallel_for\<close> over \<^verbatim>\<open>MDRangePolicy<Rank<2>>({0,0}, {n,m})\<close>.\<close>

definition md_parallel_for :: "nat \<Rightarrow> nat \<Rightarrow> (nat \<Rightarrow> nat \<Rightarrow> 's \<Rightarrow> 's) \<Rightarrow> 's \<Rightarrow> 's" where
  "md_parallel_for n m body s = fold (\<lambda>i. fold (body i) [0..<m]) [0..<n] s"

text \<open>The four views are allocated (zero-filled) and then filled by the kernel.\<close>

definition init_matrices ::
  "(double \<Rightarrow> double) \<Rightarrow> (double \<Rightarrow> double) \<Rightarrow> nat \<Rightarrow> nat \<Rightarrow> double views" where
  "init_matrices std_sin std_cos n Nr =
     md_parallel_for n Nr (init_matrices_body std_sin std_cos n Nr)
       \<lparr>a_view = (\<lambda>i k. 0), b_view = (\<lambda>i k. 0), c_view = (\<lambda>i k. 0), y_view = (\<lambda>i k. 0)\<rparr>"

subsection \<open>The recurrence of one system\<close>

text \<open>
  What the kernels compute for system \<open>i\<close>, as functions of the input views alone: the
  intermediates \<open>c_prime\<close> and \<open>y_prime\<close> of level \<open>k\<close>, the pivot they are divided by, and
  the solution of level \<open>k\<close>. The lemmas below show that the solvers fill their arrays with
  these values; the theorems about the solvers are stated on the solvers themselves.
\<close>

primrec row_c_prime ::
  "('a::{zero,one,times,minus,inverse}, 'z) views_scheme \<Rightarrow> nat \<Rightarrow> nat \<Rightarrow> 'a" where
  "row_c_prime v i 0 =
     (if b_view v i 0 \<noteq> 0 then c_view v i 0 * (1 / b_view v i 0) else 0)"
| "row_c_prime v i (Suc k) =
     (if b_view v i (Suc k) - a_view v i (Suc k) * row_c_prime v i k \<noteq> 0
      then c_view v i (Suc k) * (1 / (b_view v i (Suc k) - a_view v i (Suc k) * row_c_prime v i k))
      else 0)"

definition row_pivot ::
  "('a::{zero,one,times,minus,inverse}, 'z) views_scheme \<Rightarrow> nat \<Rightarrow> nat \<Rightarrow> 'a" where
  "row_pivot v i k =
     (case k of 0 \<Rightarrow> b_view v i 0
      | Suc j \<Rightarrow> b_view v i k - a_view v i k * row_c_prime v i j)"

primrec row_y_prime ::
  "('a::{zero,one,times,minus,inverse}, 'z) views_scheme \<Rightarrow> nat \<Rightarrow> nat \<Rightarrow> 'a" where
  "row_y_prime v i 0 =
     (if b_view v i 0 \<noteq> 0 then y_view v i 0 * (1 / b_view v i 0) else 0)"
| "row_y_prime v i (Suc k) =
     (if row_pivot v i (Suc k) \<noteq> 0
      then (y_view v i (Suc k) - a_view v i (Suc k) * row_y_prime v i k) * (1 / row_pivot v i (Suc k))
      else 0)"

function row_result ::
  "('a::{zero,one,times,minus,inverse}, 'z) views_scheme \<Rightarrow> nat \<Rightarrow> nat \<Rightarrow> nat \<Rightarrow> 'a" where
  "row_result v nk i k =
     (if Suc k < nk then row_y_prime v i k - row_c_prime v i k * row_result v nk i (Suc k)
      else row_y_prime v i k)"
  by pat_completeness auto
termination
  by (relation "measure (\<lambda>(v, nk, i, k). nk - k)") auto

declare row_result.simps [simp del]

text \<open>Two memories agree on system \<open>i\<close>: the same \<open>a\<close>, \<open>b\<close>, \<open>c\<close>, \<open>y\<close> at every
  level.\<close>

definition row_agree ::
  "nat \<Rightarrow> nat \<Rightarrow> ('a, 'y) views_scheme \<Rightarrow> ('a, 'z) views_scheme \<Rightarrow> bool" where
  "row_agree nk i v w \<longleftrightarrow>
     (\<forall>k\<in>{0..<nk}. a_view v i k = a_view w i k \<and> b_view v i k = b_view w i k \<and>
             c_view v i k = c_view w i k \<and> y_view v i k = y_view w i k)"

text \<open>
  The value of \<^verbatim>\<open>tmpVar\<close> that iteration \<open>i\<close> of the launch for level \<open>k\<close> computes:
  \<open>tmpVar\<close> on the memory after the forward sweep up to level \<open>k\<close> and after the iterations
  \<open>0, \<dots>, i-1\<close> of the same launch.
\<close>

definition launch_tmpVar ::
  "nat \<Rightarrow> 'a::{zero,one,times,minus,inverse} views \<Rightarrow> nat \<Rightarrow> nat \<Rightarrow> 'a" where
  "launch_tmpVar ni v i k = tmpVar (parallel_for i (forward_sweep k) (naive_forward ni k v)) i k"

text \<open>The coefficient views of a memory, the memory inside the backward sweep of the naive
  solver, and the four views of the caller in a memory of the fused solver.\<close>

definition coeffs :: "('a, 'z) views_scheme \<Rightarrow> 'a view \<times> 'a view \<times> 'a view" where
  "coeffs s = (a_view s, b_view s, c_view s)"

definition naive_backward_from ::
  "nat \<Rightarrow> nat \<Rightarrow> nat \<Rightarrow> 'a::{zero,one,times,minus,inverse} views \<Rightarrow> 'a naive_views" where
  "naive_backward_from ni nk j v =
     fold (\<lambda>k. parallel_for ni (backward_sweep k)) (rev [j..<nk - 1])
       (parallel_for ni (backward_sweep_last nk) (naive_forward ni nk v))"

definition caller_views :: "('a, 'z) views_scheme \<Rightarrow> 'a views" where
  "caller_views s =
     \<lparr>a_view = a_view s, b_view = b_view s, c_view = c_view s, y_view = y_view s\<rparr>"

text \<open>One solve of system \<open>i\<close> alone: row \<open>i\<close> of \<open>y\<close> is replaced by its solution.\<close>

definition solve_row ::
  "nat \<Rightarrow> nat \<Rightarrow> 'a::{zero,one,times,minus,inverse} views \<Rightarrow> 'a views" where
  "solve_row nk i v =
     v\<lparr>y_view := (\<lambda>i' k. if i' = i \<and> k < nk then row_result v nk i k else y_view v i' k)\<rparr>"

subsection \<open>Concrete inputs\<close>

text \<open>Two systems of three levels in binary64: \<open>a = c = -1\<close>, \<open>b = 3\<close>, \<open>y = 1\<close>.\<close>

definition example_views :: "double views" where
  "example_views =
     \<lparr>a_view = (\<lambda>i k. if k > 0 then Double (- 1) else Double 0),
      b_view = (\<lambda>i k. Double 3),
      c_view = (\<lambda>i k. if k < 2 then Double (- 1) else Double 0),
      y_view = (\<lambda>i k. Double 1)\<rparr>"

text \<open>The same with the diagonal of system \<open>0\<close> set to zero.\<close>

definition corrupted_views :: "double views" where
  "corrupted_views =
     example_views\<lparr>b_view := (\<lambda>i k. if i = 0 then Double 0 else Double 3)\<rparr>"

text \<open>The same systems over the rationals (exact arithmetic).\<close>

definition exact_views :: "rat views" where
  "exact_views =
     \<lparr>a_view = (\<lambda>i k. if k > 0 then - 1 else 0),
      b_view = (\<lambda>i k. 3),
      c_view = (\<lambda>i k. if k < 2 then - 1 else 0),
      y_view = (\<lambda>i k. 1)\<rparr>"

text \<open>The scenario of the specification: \<open>ni = nk = 1\<close>, \<open>a = 0\<close>, \<open>b = 2.0\<close>, \<open>c = 0\<close>,
  \<open>y = 1.0\<close>.\<close>

definition scenario_views :: "double views" where
  "scenario_views =
     \<lparr>a_view = (\<lambda>i k. Double 0), b_view = (\<lambda>i k. Double 2),
      c_view = (\<lambda>i k. Double 0), y_view = (\<lambda>i k. Double 1)\<rparr>"

text \<open>One system of one level with \<open>b = y = 49\<close>.\<close>

definition forty_nine_views :: "double views" where
  "forty_nine_views =
     \<lparr>a_view = (\<lambda>i k. Double 0), b_view = (\<lambda>i k. Double 49),
      c_view = (\<lambda>i k. Double 0), y_view = (\<lambda>i k. Double 49)\<rparr>"

text \<open>
  One system of two levels with a tiny first pivot: \<open>a = [0, 1]\<close>, \<open>b = [2\<^sup>-\<^sup>7\<^sup>0, 1]\<close>,
  \<open>c = [1, 0]\<close>, \<open>y = [1, 2]\<close>.
\<close>

definition tiny_pivot_views :: "double views" where
  "tiny_pivot_views =
     \<lparr>a_view = (\<lambda>i k. if k = 0 then Double 0 else Double 1),
      b_view = (\<lambda>i k. if k = 0 then Double (1 / 2 ^ 70) else Double 1),
      c_view = (\<lambda>i k. if k = 0 then Double 1 else Double 0),
      y_view = (\<lambda>i k. if k = 0 then Double 1 else Double 2)\<rparr>"

text \<open>
  Values of \<^verbatim>\<open>std::sin\<close> and \<^verbatim>\<open>std::cos\<close> in binary64 at the arguments the generator
  forms for \<open>n = 4\<close>, \<open>i = 3\<close> and for \<open>Nr = 50\<close>, \<open>k = 49\<close> (both arguments are the
  constant \<^verbatim>\<open>pi\<close>): \<open>sin(pi) = 4967757600021511 * 2\<^sup>-\<^sup>1\<^sup>0\<^sup>5\<close> and \<open>cos(pi) = -1\<close>. At the
  other arguments the two stand-ins return \<open>0\<close> and \<open>1\<close>.
\<close>

definition sample_sin :: "double \<Rightarrow> double" where
  "sample_sin x =
     (if x = Double (884279719003555 / 281474976710656)
      then Double (4967757600021511 / 40564819207303340847894502572032) else Double 0)"

definition sample_cos :: "double \<Rightarrow> double" where
  "sample_cos x =
     (if x = Double (884279719003555 / 281474976710656) then Double (- 1) else Double 1)"

text \<open>Stale contents of the teams' scratch arrays.\<close>

definition stale_c_prime :: "nat \<Rightarrow> nat \<Rightarrow> double" where
  "stale_c_prime i k = Double 7"

definition stale_y_prime :: "nat \<Rightarrow> nat \<Rightarrow> double" where
  "stale_y_prime i k = Double (- 9)"

section \<open>What the kernels compute\<close>

subsection \<open>One launch of each kernel of the naive solver\<close>

lemma parallel_for_0: "parallel_for 0 body s = s"
  by (simp add: parallel_for_def)

lemma parallel_for_Suc: "parallel_for (Suc n) body s = body n (parallel_for n body s)"
  by (simp add: parallel_for_def)

lemma pass_forward_sweep_first:
  "parallel_for n forward_sweep_first s =
     s\<lparr>c_prime_view := (\<lambda>i k. if i < n \<and> k = 0
          then (if b_view s i 0 \<noteq> 0 then c_view s i 0 * (1 / b_view s i 0) else 0)
          else c_prime_view s i k),
       y_prime_view := (\<lambda>i k. if i < n \<and> k = 0
          then (if b_view s i 0 \<noteq> 0 then y_view s i 0 * (1 / b_view s i 0) else 0)
          else y_prime_view s i k)\<rparr>"
proof (induction n)
  case 0
  show ?case by (simp add: parallel_for_0)
next
  case (Suc n)
  show ?case
    unfolding parallel_for_Suc Suc.IH
    by (auto simp: forward_sweep_first_def store_def Let_def fun_eq_iff less_Suc_eq)
qed

lemma pass_forward_sweep:
  assumes "1 \<le> k"
  shows "parallel_for n (forward_sweep k) s =
     s\<lparr>c_prime_view := (\<lambda>i j. if i < n \<and> j = k
          then (if tmpVar s i k \<noteq> 0 then c_view s i k * (1 / tmpVar s i k) else 0)
          else c_prime_view s i j),
       y_prime_view := (\<lambda>i j. if i < n \<and> j = k
          then (if tmpVar s i k \<noteq> 0
                then (y_view s i k - a_view s i k * y_prime_view s i (k - 1)) * (1 / tmpVar s i k)
                else 0)
          else y_prime_view s i j)\<rparr>"
proof (induction n)
  case 0
  show ?case by (simp add: parallel_for_0)
next
  case (Suc n)
  show ?case
    unfolding parallel_for_Suc Suc.IH using assms
    by (auto simp: forward_sweep_def tmpVar_def store_def Let_def fun_eq_iff less_Suc_eq)
qed

lemma pass_backward_sweep_last:
  "parallel_for n (backward_sweep_last nk) s =
     s\<lparr>y_view := (\<lambda>i j. if i < n \<and> j = nk - 1 then y_prime_view s i (nk - 1)
                         else y_view s i j)\<rparr>"
proof (induction n)
  case 0
  show ?case by (simp add: parallel_for_0)
next
  case (Suc n)
  show ?case
    unfolding parallel_for_Suc Suc.IH
    by (auto simp: backward_sweep_last_def store_def fun_eq_iff less_Suc_eq)
qed

lemma pass_backward_sweep:
  "parallel_for n (backward_sweep k) s =
     s\<lparr>y_view := (\<lambda>i j. if i < n \<and> j = k
                         then y_prime_view s i k - c_prime_view s i k * y_view s i (k + 1)
                         else y_view s i j)\<rparr>"
proof (induction n)
  case 0
  show ?case by (simp add: parallel_for_0)
next
  case (Suc n)
  show ?case
    unfolding parallel_for_Suc Suc.IH
    by (auto simp: backward_sweep_def store_def fun_eq_iff less_Suc_eq)
qed


lemma row_pivot_Suc:
  "row_pivot v i (Suc k) = b_view v i (Suc k) - a_view v i (Suc k) * row_c_prime v i k"
  by (simp add: row_pivot_def)

lemma row_pivot_0: "row_pivot v i 0 = b_view v i 0"
  by (simp add: row_pivot_def)

lemma row_c_prime_Suc:
  "row_c_prime v i (Suc k) =
     (if row_pivot v i (Suc k) \<noteq> 0 then c_view v i (Suc k) * (1 / row_pivot v i (Suc k)) else 0)"
  by (simp add: row_pivot_Suc)

lemma naive_forward_1:
  "naive_forward ni (Suc 0) v = parallel_for ni forward_sweep_first (naive_alloc v)"
  by (simp add: naive_forward_def)

lemma naive_forward_Suc:
  "naive_forward ni (Suc (Suc m)) v =
     parallel_for ni (forward_sweep (Suc m)) (naive_forward ni (Suc m) v)"
  by (simp add: naive_forward_def)

lemma naive_forward_eq:
  "naive_forward ni (Suc m) v =
     \<lparr>a_view = a_view v, b_view = b_view v, c_view = c_view v, y_view = y_view v,
      c_prime_view = (\<lambda>i k. if i < ni \<and> k < Suc m then row_c_prime v i k else 0),
      y_prime_view = (\<lambda>i k. if i < ni \<and> k < Suc m then row_y_prime v i k else 0)\<rparr>"
proof (induction m)
  case 0
  show ?case
    by (auto simp: naive_forward_1 pass_forward_sweep_first naive_alloc_def fun_eq_iff)
next
  case (Suc m)
  show ?case
    unfolding naive_forward_Suc Suc.IH
    by (subst pass_forward_sweep)
       (auto simp: tmpVar_def row_pivot_Suc fun_eq_iff less_Suc_eq)
qed

lemma naive_backward_from_last:
  "naive_backward_from ni nk (nk - 1) v =
     parallel_for ni (backward_sweep_last nk) (naive_forward ni nk v)"
  by (simp add: naive_backward_from_def)

lemma naive_backward_from_step:
  "j < nk - 1 \<Longrightarrow>
   naive_backward_from ni nk j v =
     parallel_for ni (backward_sweep j) (naive_backward_from ni nk (Suc j) v)"
  by (simp add: naive_backward_from_def upt_conv_Cons)

lemma naive_backward_from_eq:
  assumes "j \<le> nk - 1" "1 \<le> nk"
  shows "naive_backward_from ni nk j v =
     \<lparr>a_view = a_view v, b_view = b_view v, c_view = c_view v,
      y_view = (\<lambda>i k. if i < ni \<and> j \<le> k \<and> k < nk then row_result v nk i k else y_view v i k),
      c_prime_view = (\<lambda>i k. if i < ni \<and> k < nk then row_c_prime v i k else 0),
      y_prime_view = (\<lambda>i k. if i < ni \<and> k < nk then row_y_prime v i k else 0)\<rparr>"
  using assms(1)
proof (induction j rule: inc_induct)
  case base
  obtain m where m: "nk = Suc m" using assms(2) by (cases nk) auto
  show ?case
    unfolding naive_backward_from_last pass_backward_sweep_last
    unfolding m naive_forward_eq
    by (auto simp: fun_eq_iff row_result.simps[of v "Suc m" _ m] le_less)
next
  case (step j)
  have r: "row_result v nk i j = row_y_prime v i j - row_c_prime v i j * row_result v nk i (Suc j)" for i
    using step.hyps by (subst row_result.simps) auto
  show ?case
    unfolding naive_backward_from_step[OF step.hyps(2)] step.IH pass_backward_sweep
    using step.hyps
    by (auto simp: fun_eq_iff r Suc_le_eq le_less)
qed

lemma naive_run_eq:
  assumes "1 \<le> nk"
  shows "naive_run ni nk v =
     \<lparr>a_view = a_view v, b_view = b_view v, c_view = c_view v,
      y_view = (\<lambda>i k. if i < ni \<and> k < nk then row_result v nk i k else y_view v i k),
      c_prime_view = (\<lambda>i k. if i < ni \<and> k < nk then row_c_prime v i k else 0),
      y_prime_view = (\<lambda>i k. if i < ni \<and> k < nk then row_y_prime v i k else 0)\<rparr>"
proof -
  have "naive_run ni nk v = naive_backward_from ni nk 0 v"
    by (simp add: naive_run_def naive_backward_from_def)
  then show ?thesis
    using naive_backward_from_eq[of 0 nk ni v] assms by simp
qed


lemma row_c_prime_cong:
  "row_agree nk i v w \<Longrightarrow> k < nk \<Longrightarrow> row_c_prime v i k = row_c_prime w i k"
  by (induction k) (auto simp: row_agree_def)

lemma row_pivot_cong:
  "row_agree nk i v w \<Longrightarrow> k < nk \<Longrightarrow> row_pivot v i k = row_pivot w i k"
  by (cases k) (auto simp: row_pivot_def row_c_prime_cong, auto simp: row_agree_def)

lemma row_y_prime_cong:
  "row_agree nk i v w \<Longrightarrow> k < nk \<Longrightarrow> row_y_prime v i k = row_y_prime w i k"
proof (induction k)
  case 0
  then show ?case by (auto simp: row_agree_def)
next
  case (Suc k)
  then have "row_pivot v i (Suc k) = row_pivot w i (Suc k)" "row_y_prime v i k = row_y_prime w i k"
    by (auto simp: row_pivot_cong)
  moreover have "y_view v i (Suc k) = y_view w i (Suc k)" "a_view v i (Suc k) = a_view w i (Suc k)"
    using Suc.prems by (auto simp: row_agree_def)
  ultimately show ?case by simp
qed

lemma row_result_cong:
  "row_agree nk i v w \<Longrightarrow> k < nk \<Longrightarrow> row_result v nk i k = row_result w nk i k"
proof (induction v nk i k rule: row_result.induct)
  case (1 v nk i k)
  show ?case
  proof (cases "Suc k < nk")
    case True
    with 1 have "row_result v nk i (Suc k) = row_result w nk i (Suc k)" by simp
    with 1 True show ?thesis
      by (simp add: row_result.simps[of v nk i k] row_result.simps[of w nk i k]
            row_c_prime_cong row_y_prime_cong)
  next
    case False
    with 1 show ?thesis
      by (simp add: row_result.simps[of v nk i k] row_result.simps[of w nk i k] row_y_prime_cong)
  qed
qed

lemma solve_tridiagonal_kokkos_naive_eq:
  assumes "1 \<le> nk"
  shows "solve_tridiagonal_kokkos_naive ni nk v =
     v\<lparr>y_view := (\<lambda>i k. if i < ni \<and> k < nk then row_result v nk i k else y_view v i k)\<rparr>"
  by (simp add: solve_tridiagonal_kokkos_naive_def naive_run_eq[OF assms])

lemma launch_tmpVar_eq:
  assumes "1 \<le> k" "i < ni"
  shows "launch_tmpVar ni v i k = row_pivot v i k"
proof -
  obtain m where m: "k = Suc m" using assms(1) by (cases k) auto
  show ?thesis
    unfolding launch_tmpVar_def pass_forward_sweep[OF assms(1)]
    unfolding m naive_forward_eq
    using assms(2) by (simp add: tmpVar_def row_pivot_Suc)
qed


lemma demo_kernels:
  "demo_forward_sweep_first = forward_sweep_first"
  "demo_forward_sweep = forward_sweep"
  "demo_backward_sweep_last = backward_sweep_last"
  "demo_backward_sweep = backward_sweep"
  by (auto simp: fun_eq_iff demo_forward_sweep_first_def forward_sweep_first_def
        demo_forward_sweep_def forward_sweep_def tmpVar_def Let_def
        demo_backward_sweep_last_def backward_sweep_last_def
        demo_backward_sweep_def backward_sweep_def)


lemma fold_preserves:
  "(\<And>x s. x \<in> set xs \<Longrightarrow> f (g x s) = f s) \<Longrightarrow> f (fold g xs s) = f s"
  by (induction xs arbitrary: s) auto

lemma parallel_for_preserves:
  "(\<And>i s. f (body i s) = f s) \<Longrightarrow> f (parallel_for n body s) = f s"
  unfolding parallel_for_def by (rule fold_preserves) simp


lemma naive_kernels_coeffs:
  "coeffs (forward_sweep_first i s) = coeffs s"
  "coeffs (forward_sweep k i s) = coeffs s"
  "coeffs (backward_sweep_last nk i s) = coeffs s"
  "coeffs (backward_sweep k i s) = coeffs s"
  by (simp_all add: coeffs_def forward_sweep_first_def forward_sweep_def
        backward_sweep_last_def backward_sweep_def Let_def)

lemma naive_run_coeffs: "coeffs (naive_run ni nk v) = coeffs v"
proof -
  have "coeffs (naive_alloc v) = coeffs v"
    by (simp add: coeffs_def naive_alloc_def)
  then show ?thesis
    unfolding naive_run_def naive_forward_def
    by (simp add: fold_preserves parallel_for_preserves naive_kernels_coeffs)
qed

subsection \<open>The team kernel of the fused solver\<close>

lemma team_forward_eq:
  assumes "c_prime_scratch s 0 = row_c_prime s i 0" "y_prime_scratch s 0 = row_y_prime s i 0"
  shows "fold (team_forward_step i) [1..<Suc m] s =
     s\<lparr>c_prime_scratch := (\<lambda>k. if k < Suc m then row_c_prime s i k else c_prime_scratch s k),
       y_prime_scratch := (\<lambda>k. if k < Suc m then row_y_prime s i k else y_prime_scratch s k)\<rparr>"
proof (induction m)
  case 0
  show ?case using assms by (auto simp: fun_eq_iff intro!: team_views.equality)
next
  case (Suc m)
  have "fold (team_forward_step i) [1..<Suc (Suc m)] s =
        team_forward_step i (Suc m) (fold (team_forward_step i) [1..<Suc m] s)"
    by simp
  also have "\<dots> =
     s\<lparr>c_prime_scratch := (\<lambda>k. if k < Suc (Suc m) then row_c_prime s i k else c_prime_scratch s k),
       y_prime_scratch := (\<lambda>k. if k < Suc (Suc m) then row_y_prime s i k else y_prime_scratch s k)\<rparr>"
    unfolding Suc.IH
    by (auto simp: team_forward_step_def Let_def fun_eq_iff row_pivot_Suc less_Suc_eq)
  finally show ?case .
qed

lemma team_backward_eq:
  assumes "j \<le> nk - 1" "1 \<le> nk"
    and "\<forall>k<nk. c_prime_scratch s k = row_c_prime s i k \<and> y_prime_scratch s k = row_y_prime s i k"
  shows "fold (team_backward_step i) (rev [j..<nk - 1])
           (s\<lparr>y_view := store (y_view s) i (nk - 1) (y_prime_scratch s (nk - 1))\<rparr>) =
     s\<lparr>y_view := (\<lambda>i' k. if i' = i \<and> j \<le> k \<and> k < nk then row_result s nk i k
                          else y_view s i' k)\<rparr>"
  using assms(1)
proof (induction j rule: inc_induct)
  case base
  have "row_result s nk i (nk - 1) = row_y_prime s i (nk - 1)"
    using assms(2) by (subst row_result.simps) auto
  moreover have "nk - 1 \<le> k \<and> k < nk \<longleftrightarrow> k = nk - 1" for k
    using assms(2) by auto
  moreover have "y_prime_scratch s (nk - 1) = row_y_prime s i (nk - 1)"
    using assms(2,3) by simp
  ultimately show ?case
    by (auto simp: store_def fun_eq_iff)
next
  case (step j)
  have r: "row_result s nk i j = row_y_prime s i j - row_c_prime s i j * row_result s nk i (Suc j)"
    using step.hyps by (subst row_result.simps) auto
  have sc: "c_prime_scratch s j = row_c_prime s i j" "y_prime_scratch s j = row_y_prime s i j"
    using step.hyps assms(3) by simp_all
  have "fold (team_backward_step i) (rev [j..<nk - 1])
           (s\<lparr>y_view := store (y_view s) i (nk - 1) (y_prime_scratch s (nk - 1))\<rparr>) =
        team_backward_step i j (fold (team_backward_step i) (rev [Suc j..<nk - 1])
           (s\<lparr>y_view := store (y_view s) i (nk - 1) (y_prime_scratch s (nk - 1))\<rparr>))"
    using step.hyps by (simp add: upt_conv_Cons)
  also have "\<dots> = s\<lparr>y_view := (\<lambda>i' k. if i' = i \<and> j \<le> k \<and> k < nk then row_result s nk i k
                          else y_view s i' k)\<rparr>"
    unfolding step.IH
    using step.hyps
    by (auto simp: team_backward_step_def store_def fun_eq_iff r sc Suc_le_eq le_less)
  finally show ?case .
qed

lemma team_member_body_eq:
  assumes "1 \<le> nk" and "\<not> faulted s"
  shows "team_member_body nk True True i s =
     s\<lparr>y_view := (\<lambda>i' k. if i' = i \<and> k < nk then row_result s nk i k else y_view s i' k),
       c_prime_scratch := (\<lambda>k. if k < nk then row_c_prime s i k else c_prime_scratch s k),
       y_prime_scratch := (\<lambda>k. if k < nk then row_y_prime s i k else y_prime_scratch s k)\<rparr>"
proof -
  obtain m where m: "nk = Suc m" using assms(1) by (cases nk) auto
  define s0 where "s0 =
     s\<lparr>c_prime_scratch := (c_prime_scratch s)(0 := row_c_prime s i 0),
       y_prime_scratch := (y_prime_scratch s)(0 := row_y_prime s i 0)\<rparr>"
  define s1 where "s1 =
     s\<lparr>c_prime_scratch := (\<lambda>k. if k < nk then row_c_prime s i k else c_prime_scratch s k),
       y_prime_scratch := (\<lambda>k. if k < nk then row_y_prime s i k else y_prime_scratch s k)\<rparr>"
  have ag0: "row_agree n i s0 s" for n by (simp add: row_agree_def s0_def)
  have ag1: "row_agree n i s1 s" for n by (simp add: row_agree_def s1_def)
  have r0: "row_c_prime s0 i k = row_c_prime s i k" "row_y_prime s0 i k = row_y_prime s i k" for k
    using row_c_prime_cong[OF ag0, of k "Suc k"] row_y_prime_cong[OF ag0, of k "Suc k"] by simp_all
  have r1: "row_c_prime s1 i k = row_c_prime s i k" "row_y_prime s1 i k = row_y_prime s i k"
           "row_result s1 nk i k = row_result s nk i k" if "k < nk" for k
    using row_c_prime_cong[OF ag1 that] row_y_prime_cong[OF ag1 that] row_result_cong[OF ag1 that]
    by simp_all
  have f1: "(\<lambda>k. if k < nk then row_c_prime s0 i k else c_prime_scratch s0 k) =
            (\<lambda>k. if k < nk then row_c_prime s i k else c_prime_scratch s k)"
    using assms(1) by (auto simp: fun_eq_iff r0) (simp add: s0_def)
  have f2: "(\<lambda>k. if k < nk then row_y_prime s0 i k else y_prime_scratch s0 k) =
            (\<lambda>k. if k < nk then row_y_prime s i k else y_prime_scratch s k)"
    using assms(1) by (auto simp: fun_eq_iff r0) (simp add: s0_def)
  have "fold (team_forward_step i) [1..<nk] s0 =
        s0\<lparr>c_prime_scratch := (\<lambda>k. if k < nk then row_c_prime s0 i k else c_prime_scratch s0 k),
          y_prime_scratch := (\<lambda>k. if k < nk then row_y_prime s0 i k else y_prime_scratch s0 k)\<rparr>"
    unfolding m by (rule team_forward_eq) (simp_all add: r0, simp_all add: s0_def)
  also have "\<dots> = s1"
    unfolding f1 f2 by (simp add: s0_def s1_def)
  finally have fw: "fold (team_forward_step i) [1..<nk] s0 = s1" .
  have sc1: "\<forall>k<nk. c_prime_scratch s1 k = row_c_prime s1 i k \<and>
                   y_prime_scratch s1 k = row_y_prime s1 i k"
  proof (intro allI impI)
    fix k assume k: "k < nk"
    show "c_prime_scratch s1 k = row_c_prime s1 i k \<and> y_prime_scratch s1 k = row_y_prime s1 i k"
      unfolding r1(1)[OF k] r1(2)[OF k] using k by (simp add: s1_def)
  qed
  have yv: "(\<lambda>i' k. if i' = i \<and> 0 \<le> k \<and> k < nk then row_result s1 nk i k else y_view s1 i' k) =
            (\<lambda>i' k. if i' = i \<and> k < nk then row_result s nk i k else y_view s i' k)"
    by (auto simp: fun_eq_iff r1) (simp_all add: s1_def)
  have "team_member_body nk True True i s =
        fold (team_backward_step i) (rev [0..<nk - 1])
          ((fold (team_forward_step i) [1..<nk] s0)
             \<lparr>y_view := store (y_view (fold (team_forward_step i) [1..<nk] s0)) i (nk - 1)
                  (y_prime_scratch (fold (team_forward_step i) [1..<nk] s0) (nk - 1))\<rparr>)"
    using assms(2) by (simp add: team_member_body_def s0_def Let_def)
  also have "\<dots> = s1\<lparr>y_view := (\<lambda>i' k. if i' = i \<and> 0 \<le> k \<and> k < nk then row_result s1 nk i k
                          else y_view s1 i' k)\<rparr>"
    unfolding fw using _ assms(1) sc1 by (rule team_backward_eq) simp
  also have "\<dots> = s1\<lparr>y_view := (\<lambda>i' k. if i' = i \<and> k < nk then row_result s nk i k
                          else y_view s i' k)\<rparr>"
    unfolding yv ..
  finally show ?thesis
    by (simp add: s1_def)
qed


lemma thomas_algorithm_single_kernel_pointers:
  "thomas_algorithm_single_kernel nk i s = team_member_body nk True (nk = 0) i s"
  by (simp add: thomas_algorithm_single_kernel_def get_shmem_def Let_def)

lemma team_member_body_null:
  assumes "\<not> (c_prime_ok \<and> y_prime_ok)"
  shows "team_member_body nk c_prime_ok y_prime_ok i s = s\<lparr>faulted := True\<rparr>"
  using assms by (cases "faulted s") (auto simp: team_member_body_def)

lemma team_null_faults:
  assumes "\<not> (c_prime_ok \<and> y_prime_ok)"
  shows "fold (\<lambda>rank. team_member_body nk c_prime_ok y_prime_ok i) [0..<n] s =
           (if n = 0 then s else s\<lparr>faulted := True\<rparr>)"
  by (induction n) (simp_all add: team_member_body_null[OF assms])

lemma caller_views_fields:
  "a_view (caller_views s) = a_view s" "b_view (caller_views s) = b_view s"
  "c_view (caller_views s) = c_view s" "y_view (caller_views s) = y_view s"
  by (simp_all add: caller_views_def)

lemma caller_views_agree: "row_agree nk i (caller_views s) s"
  by (simp add: row_agree_def caller_views_def)

lemma dispatch_null_scratch:
  assumes "\<not> (c_prime_ok \<and> y_prime_ok)" and "1 \<le> ni" and "1 \<le> team_size"
  shows "faulted (dispatch_with_scratch ni nk team_size c_prime_ok y_prime_ok c_prime0 y_prime0 v) \<and>
         caller_views
           (dispatch_with_scratch ni nk team_size c_prime_ok y_prime_ok c_prime0 y_prime0 v) = v"
proof -
  let ?body = "\<lambda>i t. fold (\<lambda>rank. team_member_body nk c_prime_ok y_prime_ok i) [0..<team_size]
                 (t\<lparr>c_prime_scratch := c_prime0 i, y_prime_scratch := y_prime0 i\<rparr>)"
  have step: "faulted (?body i t) \<and> caller_views (?body i t) = caller_views t" for i t
    using assms(3) by (simp add: team_null_faults[OF assms(1)] caller_views_def)
  have "faulted (parallel_for (Suc n) ?body t) \<and>
        caller_views (parallel_for (Suc n) ?body t) = caller_views t" for n t
  proof (induction n)
    case 0
    show ?case using step by (simp add: parallel_for_Suc parallel_for_0)
  next
    case (Suc n)
    show ?case using step[of "Suc n" "parallel_for (Suc n) ?body t"] Suc
      by (simp add: parallel_for_Suc)
  qed
  moreover obtain n where "ni = Suc n" using assms(2) by (cases ni) auto
  ultimately show ?thesis
    by (simp add: dispatch_with_scratch_def team_parallel_for_def team_alloc_def caller_views_def)
qed

lemma solve_row_y: "k < nk \<Longrightarrow> y_view (solve_row nk i v) i k = row_result v nk i k"
  by (simp add: solve_row_def)

lemma team_member_body_views:
  assumes "1 \<le> nk" and "\<not> faulted s"
  shows "\<not> faulted (team_member_body nk True True i s) \<and>
         caller_views (team_member_body nk True True i s) = solve_row nk i (caller_views s)"
proof -
  have r: "row_result (caller_views s) nk i k = row_result s nk i k" if "k < nk" for k
    using caller_views_agree that by (rule row_result_cong)
  have "(\<lambda>i' k. if i' = i \<and> k < nk then row_result (caller_views s) nk i k
                 else y_view (caller_views s) i' k) =
        (\<lambda>i' k. if i' = i \<and> k < nk then row_result s nk i k else y_view s i' k)"
    using r by (auto simp: fun_eq_iff caller_views_fields)
  then have "solve_row nk i (caller_views s) =
        \<lparr>a_view = a_view s, b_view = b_view s, c_view = c_view s,
         y_view = (\<lambda>i' k. if i' = i \<and> k < nk then row_result s nk i k else y_view s i' k)\<rparr>"
    unfolding solve_row_def by (simp add: caller_views_def)
  then show ?thesis
    unfolding team_member_body_eq[OF assms]
    using assms(2) by (simp add: caller_views_def)
qed

lemma team_members_views:
  assumes "1 \<le> nk" and "\<not> faulted s"
  shows "\<not> faulted (fold (\<lambda>rank. team_member_body nk True True i) [0..<m] s) \<and>
         caller_views (fold (\<lambda>rank. team_member_body nk True True i) [0..<m] s) =
           (solve_row nk i ^^ m) (caller_views s)"
proof (induction m)
  case 0
  show ?case using assms(2) by simp
next
  case (Suc m)
  then show ?case
    using team_member_body_views[OF assms(1),
        of "fold (\<lambda>rank. team_member_body nk True True i) [0..<m] s" i]
    by simp
qed

lemma dispatch_valid_scratch:
  assumes "1 \<le> nk"
  shows "\<not> faulted (dispatch_with_scratch ni nk team_size True True c_prime0 y_prime0 v) \<and>
         caller_views (dispatch_with_scratch ni nk team_size True True c_prime0 y_prime0 v) =
           fold (\<lambda>i. solve_row nk i ^^ team_size) [0..<ni] v"
proof (induction ni)
  case 0
  show ?case
    by (simp add: dispatch_with_scratch_def team_parallel_for_def parallel_for_0 team_alloc_def
          caller_views_def)
next
  case (Suc ni)
  define T where "T = dispatch_with_scratch ni nk team_size True True c_prime0 y_prime0 v"
  define t where "t = T\<lparr>c_prime_scratch := c_prime0 ni, y_prime_scratch := y_prime0 ni\<rparr>"
  from Suc.IH have nf: "\<not> faulted t"
    and cv: "caller_views t = fold (\<lambda>i. solve_row nk i ^^ team_size) [0..<ni] v"
    unfolding T_def[symmetric] by (simp_all add: t_def caller_views_def)
  have "dispatch_with_scratch (Suc ni) nk team_size True True c_prime0 y_prime0 v =
        fold (\<lambda>rank. team_member_body nk True True ni) [0..<team_size] t"
    by (simp add: dispatch_with_scratch_def team_parallel_for_def parallel_for_Suc t_def T_def)
  then show ?case
    using team_members_views[OF assms nf, of ni team_size] cv by simp
qed

lemma naive_is_fold_solve_row:
  assumes "1 \<le> nk"
  shows "solve_tridiagonal_kokkos_naive ni nk v = fold (solve_row nk) [0..<ni] v"
proof -
  have "fold (solve_row nk) [0..<n] v =
        v\<lparr>y_view := (\<lambda>i k. if i < n \<and> k < nk then row_result v nk i k else y_view v i k)\<rparr>" for n
  proof (induction n)
    case 0
    show ?case by simp
  next
    case (Suc n)
    let ?s = "v\<lparr>y_view := (\<lambda>i k. if i < n \<and> k < nk then row_result v nk i k else y_view v i k)\<rparr>"
    have "row_agree nk n ?s v" by (simp add: row_agree_def)
    then have r: "row_result ?s nk n k = row_result v nk n k" if "k < nk" for k
      using that by (rule row_result_cong)
    have "fold (solve_row nk) [0..<Suc n] v = solve_row nk n ?s"
      by (simp add: Suc.IH)
    also have "\<dots> = v\<lparr>y_view := (\<lambda>i k. if i < Suc n \<and> k < nk then row_result v nk i k
                                      else y_view v i k)\<rparr>"
      unfolding solve_row_def using r by (auto simp: fun_eq_iff less_Suc_eq)
    finally show ?case .
  qed
  then show ?thesis
    by (simp add: solve_tridiagonal_kokkos_naive_eq[OF assms])
qed

lemma repaired_dispatch_is_naive:
  assumes "1 \<le> nk"
  shows "\<not> faulted (dispatch_with_scratch ni nk 1 True True c_prime0 y_prime0 v) \<and>
         caller_views (dispatch_with_scratch ni nk 1 True True c_prime0 y_prime0 v) =
           solve_tridiagonal_kokkos_naive ni nk v"
proof -
  have "(\<lambda>i. solve_row nk i ^^ 1) = solve_row nk" by (simp add: fun_eq_iff)
  then show ?thesis
    using dispatch_valid_scratch[OF assms, of ni 1 c_prime0 y_prime0 v]
    by (simp only: naive_is_fold_solve_row[OF assms]) simp
qed

lemma team_member_body_coeffs:
  "coeffs (team_member_body nk c_prime_ok y_prime_ok i s) = coeffs s"
proof -
  have fw: "coeffs (fold (team_forward_step i) ks t) = coeffs t" for ks and t :: "'a team_views"
    by (rule fold_preserves) (simp add: team_forward_step_def coeffs_def Let_def)
  have bw: "coeffs (fold (team_backward_step i) ks t) = coeffs t" for ks and t :: "'a team_views"
    by (rule fold_preserves) (simp add: team_backward_step_def coeffs_def)
  show ?thesis
    unfolding team_member_body_def Let_def
    by (simp add: bw) (simp add: coeffs_def fw[unfolded coeffs_def])
qed

lemma team_parallel_for_coeffs:
  assumes "\<And>i t. coeffs (lambda i t) = coeffs t"
  shows "coeffs (team_parallel_for ni team_size c_prime0 y_prime0 lambda s) = coeffs s"
  unfolding team_parallel_for_def
proof (rule parallel_for_preserves)
  fix i and t :: "'a team_views"
  have "coeffs (fold (\<lambda>rank. lambda i) [0..<team_size]
                  (t\<lparr>c_prime_scratch := c_prime0 i, y_prime_scratch := y_prime0 i\<rparr>)) =
        coeffs (t\<lparr>c_prime_scratch := c_prime0 i, y_prime_scratch := y_prime0 i\<rparr>)"
    by (rule fold_preserves) (rule assms)
  then show "coeffs (fold (\<lambda>rank. lambda i) [0..<team_size]
                  (t\<lparr>c_prime_scratch := c_prime0 i, y_prime_scratch := y_prime0 i\<rparr>)) = coeffs t"
    by (simp add: coeffs_def)
qed

lemma fused_coeffs:
  "coeffs (dispatch_with_scratch ni nk team_size c_prime_ok y_prime_ok c_prime0 y_prime0 v) = coeffs v"
  "coeffs (solve_tridiagonal_kokkos_optimized ni nk team_size c_prime0 y_prime0 v) = coeffs v"
proof -
  have a: "coeffs (team_alloc c_prime0 y_prime0 v) = coeffs v"
    by (simp add: coeffs_def team_alloc_def)
  show "coeffs (dispatch_with_scratch ni nk team_size c_prime_ok y_prime_ok c_prime0 y_prime0 v) =
        coeffs v"
    unfolding dispatch_with_scratch_def
    by (subst team_parallel_for_coeffs) (simp_all add: team_member_body_coeffs a)
  show "coeffs (solve_tridiagonal_kokkos_optimized ni nk team_size c_prime0 y_prime0 v) = coeffs v"
    unfolding solve_tridiagonal_kokkos_optimized_def
    by (subst team_parallel_for_coeffs)
       (simp_all add: thomas_algorithm_single_kernel_pointers team_member_body_coeffs a)
qed

lemma solve_tridiagonal_kokkos_optimized_pointers:
  "solve_tridiagonal_kokkos_optimized ni nk team_size c_prime0 y_prime0 v =
   dispatch_with_scratch ni nk team_size True (nk = 0) c_prime0 y_prime0 v"
  by (simp add: solve_tridiagonal_kokkos_optimized_def dispatch_with_scratch_def
        thomas_algorithm_single_kernel_pointers[abs_def])

lemma solve_tridiagonal_kokkos_optimized_faults:
  assumes "1 \<le> ni" and "1 \<le> nk" and "1 \<le> team_size"
  shows "faulted (solve_tridiagonal_kokkos_optimized ni nk team_size c_prime0 y_prime0 v) \<and>
         caller_views (solve_tridiagonal_kokkos_optimized ni nk team_size c_prime0 y_prime0 v) = v"
  unfolding solve_tridiagonal_kokkos_optimized_pointers
  using assms by (intro dispatch_null_scratch) auto

subsection \<open>Single level and all-degenerate systems\<close>

lemma single_level_generic:
  assumes "i < ni"
  shows "y_view (solve_tridiagonal_kokkos_naive ni 1 v) i 0 =
           (if b_view v i 0 \<noteq> 0 then y_view v i 0 * (1 / b_view v i 0) else 0)"
  using assms
  by (simp add: solve_tridiagonal_kokkos_naive_eq row_result.simps[of v "Suc 0" i 0])


lemma all_degenerate_rows:
  assumes "b_view v i 0 = 0" and "\<forall>k. 1 \<le> k \<and> k < nk \<longrightarrow> row_pivot v i k = 0" and "k < nk"
  shows "row_c_prime v i k = 0 \<and> row_y_prime v i k = 0"
  using assms by (cases k) (auto simp: row_c_prime_Suc simp del: row_c_prime.simps(2))


subsection \<open>The order of the iterations of a launch\<close>

text \<open>
  Two iterations of a kernel of the naive solver commute, so a launch that runs its
  iterations in any order \<open>xs\<close> (a permutation of \<open>0, \<dots>, n-1\<close>) leaves the same memory as
  the ascending order.
\<close>

lemma naive_kernels_commute:
  "forward_sweep_first i (forward_sweep_first j s) = forward_sweep_first j (forward_sweep_first i s)"
  "forward_sweep k i (forward_sweep k j s) = forward_sweep k j (forward_sweep k i s)"
  "backward_sweep_last nk i (backward_sweep_last nk j s) =
   backward_sweep_last nk j (backward_sweep_last nk i s)"
  "backward_sweep k i (backward_sweep k j s) = backward_sweep k j (backward_sweep k i s)"
  by (cases "i = j";
      auto simp: forward_sweep_first_def forward_sweep_def tmpVar_def backward_sweep_last_def
        backward_sweep_def store_def Let_def fun_eq_iff)+

lemma launch_order_independent:
  assumes "mset xs = mset [0..<n]"
  shows "fold forward_sweep_first xs s = parallel_for n forward_sweep_first s"
    and "fold (forward_sweep k) xs s = parallel_for n (forward_sweep k) s"
    and "fold (backward_sweep_last nk) xs s = parallel_for n (backward_sweep_last nk) s"
    and "fold (backward_sweep k) xs s = parallel_for n (backward_sweep k) s"
  unfolding parallel_for_def
  by (rule fun_cong[OF fold_multiset_equiv[OF _ assms]],
      simp add: fun_eq_iff naive_kernels_commute)+

subsection \<open>The rounding of binary64\<close>

text \<open>
  \<open>round_binary64 q\<close> is \<open>\<plusminus> m * 2\<^sup>e\<close> with \<open>e = max (\<lfloor>log\<^sub>2 |q|\<rfloor> - 52) (-1074)\<close> and \<open>m\<close>
  the integer nearest to \<open>|q| / 2\<^sup>e\<close>. It is monotone and odd, and for
  \<open>|q| \<ge> 2\<^sup>-\<^sup>1\<^sup>0\<^sup>2\<^sup>2\<close> its relative error is at most \<open>2\<^sup>-\<^sup>5\<^sup>3\<close>.
\<close>

lemma round_half_even_nearest: "\<bar>of_int (round_half_even s) - s\<bar> \<le> 1 / 2"
proof -
  have "of_int \<lfloor>s\<rfloor> \<le> s" "s < of_int \<lfloor>s\<rfloor> + 1" by linarith+
  then show ?thesis
    by (auto simp: round_half_even_def Let_def)
qed

lemma ilog2_bounds:
  assumes "0 < q"
  shows "2 powi ilog2 q \<le> q \<and> q < 2 powi (ilog2 q + 1)"
proof (cases "1 \<le> q")
  case True
  define n where "n = \<lfloor>q\<rfloor>"
  have n: "0 < n" "of_int n \<le> q" "q < of_int n + 1"
    using True unfolding n_def by linarith+
  from bitlen_bounds[OF n(1)] have b: "2 ^ nat (bitlen n - 1) \<le> n" "n < 2 ^ nat (bitlen n)"
    by simp_all
  have pos: "1 \<le> bitlen n" using n(1) by (simp add: bitlen_alt_def)
  have "(2::rat) powi (bitlen n - 1) = of_int (2 ^ nat (bitlen n - 1))"
    using pos by (simp add: power_int_def)
  also have "\<dots> \<le> of_int n" using b(1) by (simp only: of_int_le_iff)
  finally have lo: "2 powi (bitlen n - 1) \<le> q" using n(2) by simp
  have "n + 1 \<le> 2 ^ nat (bitlen n)" using b(2) by simp
  then have "(of_int (n + 1) :: rat) \<le> of_int (2 ^ nat (bitlen n))" by (simp only: of_int_le_iff)
  also have "\<dots> = 2 powi bitlen n" using pos by (simp add: power_int_def)
  finally have hi: "q < 2 powi bitlen n" using n(3) by simp
  show ?thesis using True lo hi by (simp add: ilog2_def n_def)
next
  case False
  define m where "m = \<lceil>1 / q\<rceil> - 1"
  have r: "1 < 1 / q" using assms False by simp
  have m: "0 < m" "of_int m < 1 / q" "1 / q \<le> of_int m + 1"
    using r unfolding m_def by linarith+
  from bitlen_bounds[OF m(1)] have b: "2 ^ nat (bitlen m - 1) \<le> m" "m < 2 ^ nat (bitlen m)"
    by simp_all
  have pos: "1 \<le> bitlen m" using m(1) by (simp add: bitlen_alt_def)
  have "m + 1 \<le> 2 ^ nat (bitlen m)" using b(2) by simp
  then have "(of_int (m + 1) :: rat) \<le> of_int (2 ^ nat (bitlen m))" by (simp only: of_int_le_iff)
  then have "1 / q \<le> 2 ^ nat (bitlen m)" using m(3) by simp
  then have "1 / 2 ^ nat (bitlen m) \<le> q"
    using assms by (simp add: field_simps)
  then have lo: "2 powi (- bitlen m) \<le> q"
    using pos by (simp add: power_int_def field_simps)
  have "(of_int (2 ^ nat (bitlen m - 1)) :: rat) \<le> of_int m" using b(1) by (simp only: of_int_le_iff)
  then have "(2::rat) ^ nat (bitlen m - 1) \<le> of_int m" by simp
  then have "2 ^ nat (bitlen m - 1) < 1 / q" using m(2) by linarith
  then have "q < 1 / 2 ^ nat (bitlen m - 1)"
    using assms by (simp add: field_simps)
  moreover have "(2::rat) powi (- bitlen m + 1) = 1 / 2 ^ nat (bitlen m - 1)"
    using pos by (simp add: power_int_def field_simps)
  ultimately have hi: "q < 2 powi (- bitlen m + 1)" by simp
  show ?thesis using False lo hi by (simp add: ilog2_def m_def)
qed



lemma round_half_even_floor: "\<lfloor>s\<rfloor> \<le> round_half_even s \<and> round_half_even s \<le> \<lfloor>s\<rfloor> + 1"
  by (auto simp: round_half_even_def Let_def)

lemma round_half_even_of_int: "round_half_even (of_int n) = n"
  by (simp add: round_half_even_def Let_def)

lemma round_half_even_mono:
  assumes "s \<le> t"
  shows "round_half_even s \<le> round_half_even t"
proof (cases "\<lfloor>s\<rfloor> = \<lfloor>t\<rfloor>")
  case True
  with assms show ?thesis
    by (auto simp: round_half_even_def Let_def)
next
  case False
  with assms have "\<lfloor>s\<rfloor> + 1 \<le> \<lfloor>t\<rfloor>"
    using floor_mono[OF assms] by linarith
  with round_half_even_floor[of s] round_half_even_floor[of t] show ?thesis by linarith
qed

lemma round_binary64_minus: "round_binary64 (- q) = - round_binary64 q"
  by (simp add: round_binary64_def Let_def sgn_minus)

lemma round_binary64_nonneg:
  assumes "0 \<le> q"
  shows "0 \<le> round_binary64 q"
proof (cases "q = 0")
  case True
  then show ?thesis by (simp add: round_binary64_def)
next
  case False
  define e where "e = max (ilog2 \<bar>q\<bar> - 52) (- 1074)"
  have "0 \<le> \<bar>q\<bar> * 2 powi (- e)" by simp
  then have "0 \<le> round_half_even (\<bar>q\<bar> * 2 powi (- e))"
    using round_half_even_mono[of 0 "\<bar>q\<bar> * 2 powi (- e)"] round_half_even_of_int[of 0] by simp
  then have "0 \<le> sgn q * of_int (round_half_even (\<bar>q\<bar> * 2 powi (- e))) * 2 powi e"
    using assms False by (simp add: sgn_if)
  then show ?thesis using False by (simp add: round_binary64_def Let_def e_def)
qed

lemma two_powi_less_D:
  assumes "(2::rat) powi m < 2 powi n"
  shows "m < n"
proof (rule ccontr)
  assume "\<not> m < n"
  then have "(2::rat) powi n \<le> 2 powi m" by (intro power_int_increasing) simp_all
  with assms show False by simp
qed

lemma ilog2_mono:
  assumes "0 < x" and "x \<le> y"
  shows "ilog2 x \<le> ilog2 y"
proof -
  have "2 powi ilog2 x \<le> x" using ilog2_bounds[OF assms(1)] by simp
  also have "x \<le> y" by fact
  also have "y < 2 powi (ilog2 y + 1)" using ilog2_bounds[of y] assms by simp
  finally have "(2::rat) powi ilog2 x < 2 powi (ilog2 y + 1)" .
  then have "ilog2 x < ilog2 y + 1"
    by (rule two_powi_less_D)
  then show ?thesis by simp
qed

lemma round_binary64_mono_pos:
  assumes "0 < x" and "x \<le> y"
  shows "round_binary64 x \<le> round_binary64 y"
proof -
  define ex where "ex = max (ilog2 x - 52) (- 1074)"
  define ey where "ey = max (ilog2 y - 52) (- 1074)"
  have y: "0 < y" using assms by simp
  have rx: "round_binary64 x = of_int (round_half_even (x * 2 powi (- ex))) * 2 powi ex"
    using assms(1) by (simp add: round_binary64_def Let_def ex_def)
  have ry: "round_binary64 y = of_int (round_half_even (y * 2 powi (- ey))) * 2 powi ey"
    using y by (simp add: round_binary64_def Let_def ey_def)
  have le: "ex \<le> ey" using ilog2_mono[OF assms] by (simp add: ex_def ey_def)
  show ?thesis
  proof (cases "ex = ey")
    case True
    have "x * 2 powi (- ey) \<le> y * 2 powi (- ey)"
      using assms(2) by (intro mult_right_mono) simp_all
    then have "round_half_even (x * 2 powi (- ey)) \<le> round_half_even (y * 2 powi (- ey))"
      by (rule round_half_even_mono)
    then have "(of_int (round_half_even (x * 2 powi (- ey))) :: rat) \<le>
               of_int (round_half_even (y * 2 powi (- ey)))"
      by (simp only: of_int_le_iff)
    then show ?thesis
      unfolding rx ry True by (intro mult_right_mono) simp_all
  next
    case False
    with le have lt: "ex < ey" by simp
    then have ey: "ey = ilog2 y - 52" by (auto simp: ex_def ey_def max_def split: if_splits)
    have lx: "ilog2 x - 52 \<le> ex" by (simp add: ex_def)
    define n where "n = nat (ilog2 y - ex)"
    have n: "int n = ilog2 y - ex" using lt ey by (simp add: n_def)
    have "x < 2 powi (ilog2 x + 1)" using ilog2_bounds[OF assms(1)] by simp
    also have "\<dots> \<le> 2 powi ilog2 y"
      using lt lx ey by (intro power_int_increasing) simp_all
    finally have xB: "x \<le> 2 powi ilog2 y" by simp
    have "x * 2 powi (- ex) \<le> 2 powi ilog2 y * 2 powi (- ex)"
      using xB by (intro mult_right_mono) simp_all
    also have "\<dots> = 2 powi (int n)"
      by (simp add: n power_int_diff power_int_minus field_simps)
    also have "\<dots> = of_int (2 ^ n)" by simp
    finally have "round_half_even (x * 2 powi (- ex)) \<le> 2 ^ n"
      using round_half_even_mono[of "x * 2 powi (- ex)" "of_int (2 ^ n)"]
      by (simp only: round_half_even_of_int)
    then have "(of_int (round_half_even (x * 2 powi (- ex))) :: rat) \<le> of_int (2 ^ n)"
      by (simp only: of_int_le_iff)
    then have "round_binary64 x \<le> of_int (2 ^ n) * 2 powi ex"
      unfolding rx by (intro mult_right_mono) simp_all
    also have "\<dots> = 2 powi (int n) * 2 powi ex" by simp
    also have "\<dots> = 2 powi ilog2 y"
      unfolding n by (simp flip: power_int_add)
    finally have xle: "round_binary64 x \<le> 2 powi ilog2 y" .
    have "2 powi ilog2 y * 2 powi (- ey) \<le> y * 2 powi (- ey)"
      using ilog2_bounds[OF y] by (intro mult_right_mono) simp_all
    moreover have "2 powi ilog2 y * 2 powi (- ey) = (of_int (2 ^ 52) :: rat)"
      unfolding ey by (simp flip: power_int_add)
    ultimately have "round_half_even (of_int (2 ^ 52)) \<le> round_half_even (y * 2 powi (- ey))"
      by (intro round_half_even_mono) simp
    then have "(of_int (2 ^ 52) :: rat) \<le> of_int (round_half_even (y * 2 powi (- ey)))"
      unfolding round_half_even_of_int by (simp only: of_int_le_iff)
    then have "of_int (2 ^ 52) * 2 powi ey \<le> round_binary64 y"
      unfolding ry by (intro mult_right_mono) simp_all
    moreover have "(of_int (2 ^ 52) :: rat) * 2 powi ey = 2 powi ilog2 y"
    proof -
      have "(2::rat) powi ilog2 y = 2 powi (52 + (ilog2 y - 52))" by simp
      also have "\<dots> = 2 powi 52 * 2 powi (ilog2 y - 52)" by (rule power_int_add) simp
      also have "(2::rat) powi 52 = of_int (2 ^ 52)" by simp
      finally show ?thesis unfolding ey by simp
    qed
    ultimately show ?thesis using xle by simp
  qed
qed

lemma round_binary64_mono:
  assumes "x \<le> y"
  shows "round_binary64 x \<le> round_binary64 y"
proof -
  consider "0 < x" | "x \<le> 0" "0 \<le> y" | "y < 0" by linarith
  then show ?thesis
  proof cases
    case 1
    then show ?thesis using assms by (rule round_binary64_mono_pos)
  next
    case 2
    have "0 \<le> round_binary64 (- x)" using 2(1) by (intro round_binary64_nonneg) simp
    then have "round_binary64 x \<le> 0" by (simp add: round_binary64_minus)
    also have "0 \<le> round_binary64 y" using 2(2) by (rule round_binary64_nonneg)
    finally show ?thesis .
  next
    case 3
    then have "round_binary64 (- y) \<le> round_binary64 (- x)"
      using assms by (intro round_binary64_mono_pos) simp_all
    then show ?thesis by (simp add: round_binary64_minus)
  qed
qed

lemma round_binary64_error:
  assumes "2 powi (- 1022) \<le> \<bar>q\<bar>"
  shows "\<bar>round_binary64 q - q\<bar> \<le> \<bar>q\<bar> / 2 ^ 53"
proof -
  have q0: "q \<noteq> 0"
  proof
    assume "q = 0"
    with assms have "(2::rat) powi (- 1022) \<le> 0" by simp
    then show False by (simp add: not_le)
  qed
  have "(2::rat) powi (- 1022) < 2 powi (ilog2 \<bar>q\<bar> + 1)"
    using ilog2_bounds[of "\<bar>q\<bar>"] q0 assms by simp
  then have "- 1022 < ilog2 \<bar>q\<bar> + 1" by (rule two_powi_less_D)
  then have m: "max (ilog2 \<bar>q\<bar> - 52) (- 1074) = ilog2 \<bar>q\<bar> - 52" by simp
  define e where "e = ilog2 \<bar>q\<bar> - 52"
  define s where "s = \<bar>q\<bar> * 2 powi (- e)"
  have p: "(2::rat) powi e > 0" by simp
  have "q = sgn q * \<bar>q\<bar>" by (simp add: sgn_mult_abs)
  also have "\<bar>q\<bar> = s * 2 powi e"
    by (simp add: s_def power_int_minus)
  finally have qs: "q = sgn q * s * 2 powi e" by (simp add: mult.assoc)
  have r: "round_binary64 q = sgn q * of_int (round_half_even s) * 2 powi e"
    using q0 by (simp add: round_binary64_def Let_def m e_def s_def)
  have "round_binary64 q - q = sgn q * (of_int (round_half_even s) - s) * 2 powi e"
    by (subst r, subst (2) qs) (simp add: algebra_simps)
  then have "\<bar>round_binary64 q - q\<bar> = \<bar>of_int (round_half_even s) - s\<bar> * 2 powi e"
    using q0 by (simp add: abs_mult abs_sgn_eq)
  also have "\<dots> \<le> 1 / 2 * 2 powi e"
    using round_half_even_nearest[of s] by (intro mult_right_mono) simp_all
  also have "\<dots> = 2 powi ilog2 \<bar>q\<bar> / 2 ^ 53"
    by (simp add: e_def power_int_diff)
  also have "\<dots> \<le> \<bar>q\<bar> / 2 ^ 53"
    using ilog2_bounds[of "\<bar>q\<bar>"] q0 by (simp add: divide_right_mono)
  finally show ?thesis .
qed

subsection \<open>Evaluation on concrete inputs\<close>

text \<open>
  Rewrite rules that evaluate the binary64 operations and the solvers on numerals. Levels
  are written with \<open>Suc\<close> in the evaluation lemmas.
\<close>

lemma floor_rat_numeral: "\<lfloor>numeral a / numeral b :: rat\<rfloor> = numeral a div numeral b"
  using floor_divide_of_int_eq[of "numeral a" "numeral b", where ?'a = rat] by simp

lemma ceiling_rat_numeral: "\<lceil>numeral a / numeral b :: rat\<rceil> = - (- numeral a div numeral b)"
  using ceiling_divide_eq_div[of "numeral a" "numeral b", where ?'a = rat] by simp

lemma floor_rat_one: "\<lfloor>1 / numeral b :: rat\<rfloor> = 1 div numeral b"
  using floor_divide_of_int_eq[of 1 "numeral b", where ?'a = rat] by simp

lemma ceiling_rat_one: "\<lceil>1 / numeral b :: rat\<rceil> = - (- 1 div numeral b)"
  using ceiling_divide_eq_div[of 1 "numeral b", where ?'a = rat] by simp

lemmas binary64_eval =
  zero_double_def one_double_def
  round_binary64_def ilog2_def round_half_even_def compute_bitlen Let_def power_int_def
  floor_rat_numeral ceiling_rat_numeral floor_rat_one ceiling_rat_one power_one_over

lemmas naive_eval =
  solve_tridiagonal_kokkos_naive_def naive_run_def naive_forward_def naive_alloc_def
  parallel_for_def forward_sweep_first_def forward_sweep_def tmpVar_def
  backward_sweep_last_def backward_sweep_def store_def

lemmas fused_eval =
  solve_tridiagonal_kokkos_optimized_def dispatch_with_scratch_def team_parallel_for_def
  team_alloc_def thomas_algorithm_single_kernel_def get_shmem_def team_member_body_def
  team_forward_step_def team_backward_step_def parallel_for_def store_def

lemma round_binary64_examples:
  "round_binary64 1 = 1"
  "round_binary64 (1 / 2) = 1 / 2"
  "round_binary64 (1 / 10) = 3602879701896397 / 36028797018963968"
  "round_binary64 (- 1 / 3) = - (6004799503160661 / 18014398509481984)"
  "round_binary64 (2 ^ 53 + 1) = 2 ^ 53"
  "round_binary64 (2 ^ 53 + 3) = 2 ^ 53 + 4"
  "round_binary64 (1 / 49) = 5882252574524729 / 288230376151711744"
  "round_binary64 (1 / 2 ^ 1075) = 0"
  "round_binary64 (3 / 2 ^ 1075) = 1 / 2 ^ 1073"
  "round_binary64 3.141592653589793 = 884279719003555 / 281474976710656"
  "round_binary64 1.9 = 4278419646001971 / 2251799813685248"
  by (simp_all add: binary64_eval)


lemma exact_row_result:
  "row_result exact_views (Suc (Suc (Suc 0))) 0 0 = 4 / 7"
  "row_result exact_views (Suc (Suc (Suc 0))) 0 (Suc 0) = 5 / 7"
  "row_result exact_views (Suc (Suc (Suc 0))) 0 (Suc (Suc 0)) = 4 / 7"
  by (simp_all add: exact_views_def row_pivot_def
        row_result.simps[of _ _ _ 0] row_result.simps[of _ _ _ "Suc 0"]
        row_result.simps[of _ _ _ "Suc (Suc 0)"])

lemma exact_row_pivot:
  "row_pivot exact_views 0 (Suc 0) = 8 / 3"
  "row_pivot exact_views 0 (Suc (Suc 0)) = 21 / 8"
  by (simp_all add: exact_views_def row_pivot_def)

lemma corrupted_row_pivot:
  "row_pivot corrupted_views 0 (Suc 0) = 0"
  "row_pivot corrupted_views 0 (Suc (Suc 0)) = 0"
  by (simp_all add: corrupted_views_def example_views_def row_pivot_def binary64_eval)

lemma forty_nine_result:
  "y_view (solve_tridiagonal_kokkos_naive 1 1 forty_nine_views) 0 0 =
     Double (9007199254740991 / 9007199254740992)"
  by (simp add: forty_nine_views_def naive_eval binary64_eval)

lemma example_row_pivot:
  "row_pivot example_views 0 (Suc 0) = Double (6004799503160661 / 2251799813685248)"
  "row_pivot example_views 0 (Suc (Suc 0)) = Double (21 / 8)"
  by (simp_all add: example_views_def row_pivot_def binary64_eval)

lemma tiny_pivot_result:
  "row_pivot tiny_pivot_views 0 (Suc 0) = Double (- (2 ^ 70))"
  "row_result tiny_pivot_views (Suc (Suc 0)) 0 0 = Double 0"
  "row_result tiny_pivot_views (Suc (Suc 0)) 0 (Suc 0) = Double 1"
  by (simp_all add: tiny_pivot_views_def row_pivot_def binary64_eval
        row_result.simps[of _ _ _ 0] row_result.simps[of _ _ _ "Suc 0"])

lemma scenario_results:
  "y_view (solve_tridiagonal_kokkos_naive 1 1 scenario_views) 0 0 = Double (1 / 2)"
  "faulted (solve_tridiagonal_kokkos_optimized 1 1 (Suc 0) stale_c_prime stale_y_prime
              scenario_views)"
  "y_view (solve_tridiagonal_kokkos_optimized 1 1 (Suc 0) stale_c_prime stale_y_prime
             scenario_views) 0 0 = Double 1"
  "\<not> faulted (dispatch_with_scratch 1 1 (Suc 0) True True stale_c_prime stale_y_prime
                scenario_views)"
  "y_view (dispatch_with_scratch 1 1 (Suc 0) True True stale_c_prime stale_y_prime
             scenario_views) 0 0 = Double (1 / 2)"
  "\<not> faulted (dispatch_with_scratch 1 1 (Suc (Suc 0)) True True stale_c_prime stale_y_prime
                scenario_views)"
  "y_view (dispatch_with_scratch 1 1 (Suc (Suc 0)) True True stale_c_prime stale_y_prime
             scenario_views) 0 0 = Double (1 / 4)"
  by (simp_all add: scenario_views_def naive_eval fused_eval binary64_eval)

lemma exact_second_run:
  "row_result (solve_row (Suc (Suc (Suc 0))) 0 exact_views) (Suc (Suc (Suc 0))) 0 0 = 17 / 49"
  "row_result (solve_row (Suc (Suc (Suc 0))) 0 exact_views) (Suc (Suc (Suc 0))) 0 (Suc 0) = 23 / 49"
  "row_result (solve_row (Suc (Suc (Suc 0))) 0 exact_views) (Suc (Suc (Suc 0))) 0 (Suc (Suc 0)) = 17 / 49"
  by (simp_all add: solve_row_def exact_row_result row_pivot_def
        row_result.simps[of "_\<lparr>y_view := _\<rparr>" _ _ 0] row_result.simps[of "_\<lparr>y_view := _\<rparr>" _ _ "Suc 0"]
        row_result.simps[of "_\<lparr>y_view := _\<rparr>" _ _ "Suc (Suc 0)"])
     (simp_all add: exact_views_def)

lemma three_levels_two_members:
  "y_view (dispatch_with_scratch 1 3 2 True True c_prime0 y_prime0 exact_views) 0 0 = 17 / 49"
  "y_view (dispatch_with_scratch 1 3 2 True True c_prime0 y_prime0 exact_views) 0 1 = 23 / 49"
  "y_view (dispatch_with_scratch 1 3 2 True True c_prime0 y_prime0 exact_views) 0 2 = 17 / 49"
proof -
  have "caller_views (dispatch_with_scratch 1 3 2 True True c_prime0 y_prime0 exact_views) =
        solve_row 3 0 (solve_row 3 0 exact_views)"
    using dispatch_valid_scratch[of 3 1 2 c_prime0 y_prime0 exact_views]
    by (simp add: numeral_2_eq_2)
  then have "y_view (dispatch_with_scratch 1 3 2 True True c_prime0 y_prime0 exact_views) =
             y_view (solve_row 3 0 (solve_row 3 0 exact_views))"
    using caller_views_fields(4)[of "dispatch_with_scratch 1 3 2 True True c_prime0 y_prime0 exact_views"]
    by simp
  then have r: "y_view (dispatch_with_scratch 1 3 2 True True c_prime0 y_prime0 exact_views) 0 k =
             row_result (solve_row (Suc (Suc (Suc 0))) 0 exact_views) (Suc (Suc (Suc 0))) 0 k"
    if "k < 3" for k
    using that by (simp add: solve_row_y numeral_3_eq_3)
  show "y_view (dispatch_with_scratch 1 3 2 True True c_prime0 y_prime0 exact_views) 0 0 = 17 / 49"
       "y_view (dispatch_with_scratch 1 3 2 True True c_prime0 y_prime0 exact_views) 0 1 = 23 / 49"
       "y_view (dispatch_with_scratch 1 3 2 True True c_prime0 y_prime0 exact_views) 0 2 = 17 / 49"
    using r[of 0] r[of "Suc 0"] r[of "Suc (Suc 0)"]
    by (simp_all add: exact_second_run numeral_2_eq_2)
qed

lemma levels_1_3: "k \<in> {1..<3} \<longleftrightarrow> k = Suc 0 \<or> k = Suc (Suc 0)" for k :: nat
  by auto

subsection \<open>The generator and the rows it produces\<close>

lemma rat_of_ops:
  "rat_of (x + y) = round_binary64 (rat_of x + rat_of y)"
  "rat_of (x * y) = round_binary64 (rat_of x * rat_of y)"
  "rat_of (x - y) = round_binary64 (rat_of x - rat_of y)"
  "rat_of (x / y) = round_binary64 (rat_of x / rat_of y)"
  "rat_of (0::double) = 0" "rat_of (1::double) = 1"
  by (cases x; cases y; simp add: zero_double_def one_double_def)+

lemma rat_of_nonzero: "rat_of x \<noteq> 0 \<Longrightarrow> x \<noteq> 0"
  by (auto simp: zero_double_def)

lemma literal_values:
  "literal 0.0 = Double 0" "literal (- 0.5) = Double (- 1 / 2)" "literal 2.0 = Double 2"
  "literal 0.1 = Double (3602879701896397 / 36028797018963968)"
  "literal 1.9 = Double (4278419646001971 / 2251799813685248)"
  "pi_const = Double (884279719003555 / 281474976710656)"
  by (simp_all add: literal_def pi_const_def binary64_eval)

lemma init_row:
  "fold (init_matrices_body std_sin std_cos n Nr i) [0..<m] s =
     s\<lparr>a_view := (\<lambda>i' k. if i' = i \<and> k < m then (if k > 0 then literal (- 0.5) else literal 0.0)
                           else a_view s i' k),
       b_view := (\<lambda>i' k. if i' = i \<and> k < m
                           then literal 2.0 +
                                literal 0.1 * std_sin (pi_const * double_of_int (i + 1) / double_of_int n)
                           else b_view s i' k),
       c_view := (\<lambda>i' k. if i' = i \<and> k < m then (if k < Nr - 1 then literal (- 0.5) else literal 0.0)
                           else c_view s i' k),
       y_view := (\<lambda>i' k. if i' = i \<and> k < m
                           then std_sin (pi_const * double_of_int (i + 1) / double_of_int n) *
                                std_cos (pi_const * double_of_int (k + 1) / double_of_int Nr)
                           else y_view s i' k)\<rparr>"
proof (induction m)
  case 0
  show ?case by simp
next
  case (Suc m)
  have "fold (init_matrices_body std_sin std_cos n Nr i) [0..<Suc m] s =
        init_matrices_body std_sin std_cos n Nr i m
          (fold (init_matrices_body std_sin std_cos n Nr i) [0..<m] s)"
    by simp
  also have "\<dots> =
     s\<lparr>a_view := (\<lambda>i' k. if i' = i \<and> k < Suc m then (if k > 0 then literal (- 0.5) else literal 0.0)
                           else a_view s i' k),
       b_view := (\<lambda>i' k. if i' = i \<and> k < Suc m
                           then literal 2.0 +
                                literal 0.1 * std_sin (pi_const * double_of_int (i + 1) / double_of_int n)
                           else b_view s i' k),
       c_view := (\<lambda>i' k. if i' = i \<and> k < Suc m then (if k < Nr - 1 then literal (- 0.5) else literal 0.0)
                           else c_view s i' k),
       y_view := (\<lambda>i' k. if i' = i \<and> k < Suc m
                           then std_sin (pi_const * double_of_int (i + 1) / double_of_int n) *
                                std_cos (pi_const * double_of_int (k + 1) / double_of_int Nr)
                           else y_view s i' k)\<rparr>"
    unfolding Suc.IH
    by (auto simp: init_matrices_body_def store_def Let_def fun_eq_iff less_Suc_eq)
  finally show ?case .
qed

lemma init_matrices_eq:
  "init_matrices std_sin std_cos n Nr =
     \<lparr>a_view = (\<lambda>i k. if i < n \<and> k < Nr then (if k > 0 then literal (- 0.5) else literal 0.0) else 0),
      b_view = (\<lambda>i k. if i < n \<and> k < Nr
                        then literal 2.0 +
                             literal 0.1 * std_sin (pi_const * double_of_int (i + 1) / double_of_int n)
                        else 0),
      c_view = (\<lambda>i k. if i < n \<and> k < Nr then (if k < Nr - 1 then literal (- 0.5) else literal 0.0)
                        else 0),
      y_view = (\<lambda>i k. if i < n \<and> k < Nr
                        then std_sin (pi_const * double_of_int (i + 1) / double_of_int n) *
                             std_cos (pi_const * double_of_int (k + 1) / double_of_int Nr)
                        else 0)\<rparr>"
proof -
  let ?z = "\<lparr>a_view = (\<lambda>i k. 0::double), b_view = (\<lambda>i k. 0), c_view = (\<lambda>i k. 0),
             y_view = (\<lambda>i k. 0)\<rparr>"
  have "fold (\<lambda>i. fold (init_matrices_body std_sin std_cos n' Nr i) [0..<Nr]) [0..<m] ?z =
     \<lparr>a_view = (\<lambda>i k. if i < m \<and> k < Nr then (if k > 0 then literal (- 0.5) else literal 0.0) else 0),
      b_view = (\<lambda>i k. if i < m \<and> k < Nr
                        then literal 2.0 +
                             literal 0.1 * std_sin (pi_const * double_of_int (i + 1) / double_of_int n')
                        else 0),
      c_view = (\<lambda>i k. if i < m \<and> k < Nr then (if k < Nr - 1 then literal (- 0.5) else literal 0.0)
                        else 0),
      y_view = (\<lambda>i k. if i < m \<and> k < Nr
                        then std_sin (pi_const * double_of_int (i + 1) / double_of_int n') *
                             std_cos (pi_const * double_of_int (k + 1) / double_of_int Nr)
                        else 0)\<rparr>" for m n'
  proof (induction m)
    case 0
    show ?case by simp
  next
    case (Suc m)
    have "fold (\<lambda>i. fold (init_matrices_body std_sin std_cos n' Nr i) [0..<Nr]) [0..<Suc m] ?z =
          fold (init_matrices_body std_sin std_cos n' Nr m) [0..<Nr]
            (fold (\<lambda>i. fold (init_matrices_body std_sin std_cos n' Nr i) [0..<Nr]) [0..<m] ?z)"
      by simp
    then show ?case
      unfolding Suc.IH init_row
      by (auto simp: fun_eq_iff less_Suc_eq)
  qed
  then show ?thesis
    by (simp add: init_matrices_def md_parallel_for_def)
qed

lemma generated_diagonal_bounds:
  assumes "\<bar>rat_of s\<bar> \<le> 1"
  shows "rat_of (literal 1.9) \<le> rat_of (literal 2.0 + literal 0.1 * s) \<and>
         rat_of (literal 2.0 + literal 0.1 * s) \<le> 3"
proof -
  let ?d = "3602879701896397 / 36028797018963968 :: rat"
  have lo: "round_binary64 (- ?d) = - ?d" and hi: "round_binary64 ?d = ?d"
    and lo2: "round_binary64 (2 + - ?d) = 4278419646001971 / 2251799813685248"
    and hi2: "round_binary64 (2 + ?d) = 4728779608739021 / 2251799813685248"
    by (simp_all add: binary64_eval)
  have "- ?d \<le> ?d * rat_of s" "?d * rat_of s \<le> ?d"
    using assms by (simp_all add: abs_le_iff)
  then have p: "- ?d \<le> round_binary64 (?d * rat_of s)" "round_binary64 (?d * rat_of s) \<le> ?d"
    using round_binary64_mono[of "- ?d" "?d * rat_of s"] round_binary64_mono[of "?d * rat_of s" ?d]
    unfolding lo hi by simp_all
  have "round_binary64 (2 + - ?d) \<le> round_binary64 (2 + round_binary64 (?d * rat_of s))"
       "round_binary64 (2 + round_binary64 (?d * rat_of s)) \<le> round_binary64 (2 + ?d)"
    using p by (intro round_binary64_mono; simp)+
  moreover have "rat_of (literal 2.0 + literal 0.1 * s) =
                 round_binary64 (2 + round_binary64 (?d * rat_of s))"
    unfolding literal_values by (simp add: rat_of_ops)
  moreover have "rat_of (literal 1.9) = 4278419646001971 / 2251799813685248"
    unfolding literal_values by simp
  ultimately show ?thesis
    unfolding lo2 hi2 by simp
qed


lemma reciprocal_product_bounds:
  assumes "1 \<le> t" and "c = - 1 / 2 \<or> c = 0"
  shows "- 1 / 2 \<le> round_binary64 (c * round_binary64 (1 / t)) \<and>
         round_binary64 (c * round_binary64 (1 / t)) \<le> 0"
proof -
  have e: "round_binary64 0 = 0" "round_binary64 1 = 1" "round_binary64 (- 1 / 2) = - 1 / 2"
    by (simp_all add: binary64_eval)
  have "0 \<le> 1 / t" "1 / t \<le> 1" using assms(1) by simp_all
  then have r: "0 \<le> round_binary64 (1 / t)" "round_binary64 (1 / t) \<le> 1"
    using round_binary64_mono[of 0 "1 / t"] round_binary64_mono[of "1 / t" 1]
    unfolding e by simp_all
  have "- 1 / 2 \<le> c * round_binary64 (1 / t)" "c * round_binary64 (1 / t) \<le> 0"
    using assms(2) r by auto
  then show ?thesis
    using round_binary64_mono[of "- 1 / 2" "c * round_binary64 (1 / t)"]
      round_binary64_mono[of "c * round_binary64 (1 / t)" 0]
    unfolding e by simp
qed

lemma pivot_lower_bound:
  assumes "9 / 5 \<le> B" and "B \<le> 3" and "- 1 / 2 \<le> cp" and "cp \<le> 0"
  shows "B - 1 / 2 \<le> round_binary64 (B - round_binary64 (- 1 / 2 * cp))"
proof -
  have e: "round_binary64 0 = 0" "round_binary64 (1 / 4) = 1 / 4"
    by (simp_all add: binary64_eval)
  define m where "m = round_binary64 (- 1 / 2 * cp)"
  have "0 \<le> - 1 / 2 * cp" "- 1 / 2 * cp \<le> 1 / 4" using assms(3,4) by simp_all
  then have m: "0 \<le> m" "m \<le> 1 / 4"
    using round_binary64_mono[of 0 "- 1 / 2 * cp"] round_binary64_mono[of "- 1 / 2 * cp" "1 / 4"]
    unfolding e m_def by simp_all
  define q where "q = B - m"
  have q: "1 \<le> q" "q \<le> 3" "B - 1 / 4 \<le> q" using assms(1,2) m by (simp_all add: q_def)
  have "(2::rat) powi (- 1022) \<le> 2 powi 0" by (intro power_int_increasing) simp_all
  then have "2 powi (- 1022) \<le> \<bar>q\<bar>" using q(1) by simp
  then have "\<bar>round_binary64 q - q\<bar> \<le> \<bar>q\<bar> / 2 ^ 53" by (rule round_binary64_error)
  moreover have "\<bar>q\<bar> / 2 ^ 53 \<le> 3 / 2 ^ 53" using q by (intro divide_right_mono) simp_all
  ultimately have "q - 3 / 2 ^ 53 \<le> round_binary64 q" by linarith
  then have "B - 1 / 2 \<le> round_binary64 q" using q(3) by simp
  then show ?thesis by (simp add: q_def m_def)
qed

lemma generated_row_bounds:
  fixes v :: "double views"
  assumes b: "\<forall>k<nk. 9 / 5 \<le> rat_of (b_view v i k) \<and> rat_of (b_view v i k) \<le> 3"
    and a: "\<forall>k<nk. a_view v i k = (if k > 0 then Double (- 1 / 2) else Double 0)"
    and c: "\<forall>k<nk. c_view v i k = (if k < nk - 1 then Double (- 1 / 2) else Double 0)"
  shows "k < nk \<Longrightarrow>
         rat_of (b_view v i k) - 1 / 2 \<le> rat_of (row_pivot v i k) \<and>
         - 1 / 2 \<le> rat_of (row_c_prime v i k) \<and> rat_of (row_c_prime v i k) \<le> 0"
proof (induction k)
  case 0
  then have b0: "9 / 5 \<le> rat_of (b_view v i 0)" using b by simp
  then have nz: "b_view v i 0 \<noteq> 0" by (intro rat_of_nonzero) simp
  have c0: "rat_of (c_view v i 0) = - 1 / 2 \<or> rat_of (c_view v i 0) = 0" using c 0 by auto
  have "- 1 / 2 \<le> round_binary64 (rat_of (c_view v i 0) * round_binary64 (1 / rat_of (b_view v i 0))) \<and>
        round_binary64 (rat_of (c_view v i 0) * round_binary64 (1 / rat_of (b_view v i 0))) \<le> 0"
    using b0 c0 by (intro reciprocal_product_bounds) simp_all
  then show ?case
    using nz by (simp add: row_pivot_0 rat_of_ops)
next
  case (Suc k)
  then have IH: "- 1 / 2 \<le> rat_of (row_c_prime v i k)" "rat_of (row_c_prime v i k) \<le> 0"
    by simp_all
  have bk: "9 / 5 \<le> rat_of (b_view v i (Suc k))" "rat_of (b_view v i (Suc k)) \<le> 3"
    using b Suc.prems by simp_all
  have ak: "a_view v i (Suc k) = Double (- 1 / 2)" using a Suc.prems by simp
  have ck: "rat_of (c_view v i (Suc k)) = - 1 / 2 \<or> rat_of (c_view v i (Suc k)) = 0"
    using c Suc.prems by auto
  have pv: "rat_of (row_pivot v i (Suc k)) =
            round_binary64 (rat_of (b_view v i (Suc k)) -
                            round_binary64 (- 1 / 2 * rat_of (row_c_prime v i k)))"
    by (simp add: row_pivot_Suc ak rat_of_ops)
  have p: "rat_of (b_view v i (Suc k)) - 1 / 2 \<le> rat_of (row_pivot v i (Suc k))"
    unfolding pv using bk IH by (rule pivot_lower_bound)
  then have p1: "1 \<le> rat_of (row_pivot v i (Suc k))" using bk(1) by simp
  then have nz: "row_pivot v i (Suc k) \<noteq> 0" by (intro rat_of_nonzero) simp
  have "- 1 / 2 \<le> round_binary64 (rat_of (c_view v i (Suc k)) *
                                   round_binary64 (1 / rat_of (row_pivot v i (Suc k)))) \<and>
        round_binary64 (rat_of (c_view v i (Suc k)) *
                        round_binary64 (1 / rat_of (row_pivot v i (Suc k)))) \<le> 0"
    using p1 ck by (rule reciprocal_product_bounds)
  then show ?case
    using p nz by (simp add: row_c_prime_Suc rat_of_ops del: row_c_prime.simps(2))
qed


lemma sample_bounded: "\<forall>x. \<bar>rat_of (sample_sin x)\<bar> \<le> 1"
  by (simp add: sample_sin_def)

lemma sample_arguments:
  "pi_const * double_of_int (3 + 1) / double_of_int 4 = pi_const"
  "pi_const * double_of_int (49 + 1) / double_of_int 50 = pi_const"
  unfolding literal_values by (simp_all add: double_of_int_def binary64_eval)

lemma sample_values:
  "literal 2.0 + literal 0.1 * sample_sin pi_const = Double 2"
  "sample_sin pi_const * sample_cos pi_const =
     Double (- (4967757600021511 / 40564819207303340847894502572032))"
  unfolding literal_values by (simp_all add: sample_sin_def sample_cos_def binary64_eval)

subsection \<open>Reconstruction in exact arithmetic\<close>

lemma reconstruction_field:
  fixes v :: "'a::field views"
  assumes "1 \<le> nk" and "i < ni" and "b_view v i 0 \<noteq> 0"
    and "\<forall>k\<in>{1..<nk}. launch_tmpVar ni v i k \<noteq> 0"
  shows "\<forall>k<nk.
           (if k = 0 then 0
            else a_view v i k * y_view (solve_tridiagonal_kokkos_naive ni nk v) i (k - 1)) +
           b_view v i k * y_view (solve_tridiagonal_kokkos_naive ni nk v) i k +
           (if k = nk - 1 then 0
            else c_view v i k * y_view (solve_tridiagonal_kokkos_naive ni nk v) i (k + 1)) =
           y_view v i k"
proof (intro allI impI)
  fix k assume k: "k < nk"
  let ?x = "row_result v nk i"
  have piv: "row_pivot v i j \<noteq> 0" if "j < nk" for j
    using that assms(2,3,4) by (cases j) (auto simp: row_pivot_0 launch_tmpVar_eq)
  have cp: "row_pivot v i j * row_c_prime v i j = c_view v i j" if "j < nk" for j
    using piv[OF that]
    by (cases j) (auto simp: row_pivot_0 row_c_prime_Suc simp del: row_c_prime.simps(2))
  have yp0: "b_view v i 0 * row_y_prime v i 0 = y_view v i 0"
    using assms(3) by simp
  have ypS: "row_pivot v i (Suc j) * row_y_prime v i (Suc j) =
             y_view v i (Suc j) - a_view v i (Suc j) * row_y_prime v i j" if "Suc j < nk" for j
    using piv[OF that] by simp
  have x_step: "?x j = row_y_prime v i j - row_c_prime v i j * ?x (Suc j)" if "Suc j < nk" for j
    using that by (subst row_result.simps) simp
  have x_last: "?x j = row_y_prime v i j" if "Suc j = nk" for j
    using that by (subst row_result.simps) simp
  have sol: "y_view (solve_tridiagonal_kokkos_naive ni nk v) i j = ?x j" if "j < nk" for j
    using that assms(1,2) by (simp add: solve_tridiagonal_kokkos_naive_eq)
  have px: "row_pivot v i j * ?x j =
            row_pivot v i j * row_y_prime v i j -
            (if j = nk - 1 then 0 else c_view v i j * ?x (Suc j))" if "j < nk" for j
  proof (cases "Suc j < nk")
    case True
    then have "row_pivot v i j * ?x j =
               row_pivot v i j * row_y_prime v i j -
               (row_pivot v i j * row_c_prime v i j) * ?x (Suc j)"
      by (simp add: x_step[OF True] right_diff_distrib mult.assoc)
    moreover have "j \<noteq> nk - 1" using True by simp
    ultimately show ?thesis
      by (simp only: cp[OF that] if_False)
  next
    case False
    with that have "Suc j = nk" by simp
    then show ?thesis by (auto simp: x_last)
  qed
  show "(if k = 0 then 0
         else a_view v i k * y_view (solve_tridiagonal_kokkos_naive ni nk v) i (k - 1)) +
        b_view v i k * y_view (solve_tridiagonal_kokkos_naive ni nk v) i k +
        (if k = nk - 1 then 0
         else c_view v i k * y_view (solve_tridiagonal_kokkos_naive ni nk v) i (k + 1)) =
        y_view v i k"
  proof (cases k)
    case 0
    have "b_view v i 0 * ?x 0 =
          y_view v i 0 - (if 0 = nk - 1 then 0 else c_view v i 0 * ?x (Suc 0))"
    proof -
      have "0 < nk" using k 0 by simp
      from px[OF this] show ?thesis
        unfolding row_pivot_0 yp0 .
    qed
    moreover have "0 \<noteq> nk - 1 \<Longrightarrow> Suc 0 < nk" by simp
    ultimately show ?thesis
      using 0 k by (simp add: sol del: row_y_prime.simps row_c_prime.simps)
  next
    case (Suc j)
    then have j: "Suc j < nk" "j < nk" using k by simp_all
    have xj: "?x j = row_y_prime v i j - row_c_prime v i j * ?x (Suc j)"
      by (rule x_step[OF j(1)])
    have "a_view v i (Suc j) * ?x j + b_view v i (Suc j) * ?x (Suc j) =
          a_view v i (Suc j) * row_y_prime v i j + row_pivot v i (Suc j) * ?x (Suc j)"
      by (simp add: xj row_pivot_Suc algebra_simps del: row_y_prime.simps row_c_prime.simps)
    also have "\<dots> = y_view v i (Suc j) -
                    (if Suc j = nk - 1 then 0 else c_view v i (Suc j) * ?x (Suc (Suc j)))"
      by (simp only: px[OF j(1)] ypS[OF j(1)]) simp
    finally have e: "a_view v i (Suc j) * ?x j + b_view v i (Suc j) * ?x (Suc j) =
        y_view v i (Suc j) -
        (if Suc j = nk - 1 then 0 else c_view v i (Suc j) * ?x (Suc (Suc j)))" .
    have "Suc j \<noteq> nk - 1 \<Longrightarrow> Suc (Suc j) < nk" using j by simp
    then show ?thesis
      using Suc j e by (simp add: sol del: row_y_prime.simps row_c_prime.simps)
  qed
qed

section \<open>The claims of the specification\<close>

text \<open>
  C1 asks that the naive solver and the fused solver return identical results, entry for
  entry, for every valid input. The fused kernel as written does not. On the scenario of the
  specification (\<open>ni = nk = 1\<close>, \<open>a = [[0]]\<close>, \<open>b = [[2.0]]\<close>, \<open>c = [[0]]\<close>,
  \<open>y = [[1.0]]\<close>) the naive solver returns \<open>[[0.5]]\<close>, while

  \<^item> the request of line 42 passes \<^verbatim>\<open>nk * sizeof(double)\<close> as the scratch level, so
    \<^verbatim>\<open>y_prime\<close> is null and the kernel faults at its first store through it, with \<open>y\<close>
    still \<open>[[1.0]]\<close> (for every valid input: lemma
    \<open>solve_tridiagonal_kokkos_optimized_faults\<close>);

  \<^item> were \<^verbatim>\<open>y_prime\<close> valid, a team of \<open>m\<close> members would solve its row \<open>m\<close> times, each
    member starting from the \<open>y\<close> the one before has overwritten (lemma
    \<open>dispatch_valid_scratch\<close>): a team of two returns \<open>[[0.25]]\<close> on the scenario and, in
    exact arithmetic, \<open>(17/49, 23/49, 17/49)\<close> where the naive solver returns
    \<open>(4/7, 5/7, 4/7)\<close> on the system of three levels with \<open>a = c = -1\<close>, \<open>b = 3\<close>,
    \<open>y = 1\<close>.

  Only with a valid \<^verbatim>\<open>y_prime\<close> and a team of a single member is the result that of the
  naive solver (lemma \<open>repaired_dispatch_is_naive\<close>, for every input).
\<close>

theorem fused_solver_divergence:
  "y_view (solve_tridiagonal_kokkos_naive 1 1 scenario_views) 0 0 = Double (1 / 2) \<and>
   faulted (solve_tridiagonal_kokkos_optimized 1 1 1 stale_c_prime stale_y_prime scenario_views) \<and>
   y_view (solve_tridiagonal_kokkos_optimized 1 1 1 stale_c_prime stale_y_prime scenario_views) 0 0 =
     Double 1 \<and>
   \<not> faulted (dispatch_with_scratch 1 1 2 True True stale_c_prime stale_y_prime scenario_views) \<and>
   y_view (dispatch_with_scratch 1 1 2 True True stale_c_prime stale_y_prime scenario_views) 0 0 =
     Double (1 / 4) \<and>
   \<not> faulted (dispatch_with_scratch 1 1 1 True True stale_c_prime stale_y_prime scenario_views) \<and>
   y_view (dispatch_with_scratch 1 1 1 True True stale_c_prime stale_y_prime scenario_views) 0 0 =
     Double (1 / 2) \<and>
   y_view (solve_tridiagonal_kokkos_naive 1 3 exact_views) 0 0 = 4 / 7 \<and>
   y_view (solve_tridiagonal_kokkos_naive 1 3 exact_views) 0 1 = 5 / 7 \<and>
   y_view (solve_tridiagonal_kokkos_naive 1 3 exact_views) 0 2 = 4 / 7 \<and>
   y_view (dispatch_with_scratch 1 3 2 True True (\<lambda>i k. 0) (\<lambda>i k. 0) exact_views) 0 0 = 17 / 49 \<and>
   y_view (dispatch_with_scratch 1 3 2 True True (\<lambda>i k. 0) (\<lambda>i k. 0) exact_views) 0 1 = 23 / 49 \<and>
   y_view (dispatch_with_scratch 1 3 2 True True (\<lambda>i k. 0) (\<lambda>i k. 0) exact_views) 0 2 = 17 / 49"
proof -
  have r: "y_view (solve_tridiagonal_kokkos_naive 1 3 exact_views) 0 k =
           row_result exact_views (Suc (Suc (Suc 0))) 0 k" if "k < 3" for k
    using that by (simp add: solve_tridiagonal_kokkos_naive_eq numeral_3_eq_3)
  have "y_view (solve_tridiagonal_kokkos_naive 1 3 exact_views) 0 0 = 4 / 7"
       "y_view (solve_tridiagonal_kokkos_naive 1 3 exact_views) 0 1 = 5 / 7"
       "y_view (solve_tridiagonal_kokkos_naive 1 3 exact_views) 0 2 = 4 / 7"
    using r[of 0] r[of "Suc 0"] r[of "Suc (Suc 0)"]
    by (simp_all add: exact_row_result numeral_2_eq_2)
  with scenario_results three_levels_two_members[of "\<lambda>i k. 0" "\<lambda>i k. 0"]
  show ?thesis by (simp add: numeral_2_eq_2)
qed

text \<open>
  C2, as amended. For every system \<open>i\<close> in which no pivot degenerates (\<open>b[i][0] \<noteq> 0\<close> and
  every forward-sweep \<open>tmpVar \<noteq> 0\<close>), in any arithmetic, rounding included, the result
  satisfies the reduced system that the forward sweep builds:
  \<open>result[i][nk-1] = y_prime[i][nk-1]\<close> and
  \<open>result[i][k] = y_prime[i][k] - c_prime[i][k] * result[i][k+1]\<close> below it, where
  \<open>c_prime[i][0] = c[i][0] * (1 / b[i][0])\<close>, \<open>y_prime[i][0] = y[i][0] * (1 / b[i][0])\<close>, and
  for \<open>k \<ge> 1\<close>, with \<open>tmpVar = b[i][k] - a[i][k] * c_prime[i][k-1]\<close>,
  \<open>c_prime[i][k] = c[i][k] * (1 / tmpVar)\<close> and
  \<open>y_prime[i][k] = (y[i][k] - a[i][k] * y_prime[i][k-1]) * (1 / tmpVar)\<close>.
  In exact arithmetic (a field) the reduced system is equivalent to the original one, and
  the result satisfies
  \<open>a[i][k] * result[i][k-1] + b[i][k] * result[i][k] + c[i][k] * result[i][k+1] = y[i][k]\<close>
  at every level \<open>k\<close>, with the \<open>a\<close>-term dropped at \<open>k = 0\<close> and the \<open>c\<close>-term dropped
  at \<open>k = nk-1\<close>. In binary64 the original equations are not implied, not even
  approximately (the counterexample below).
\<close>

theorem reconstruction_reduced_system:
  fixes v :: "'a::{zero,one,times,minus,inverse} views" and w :: "'b::field views"
  assumes "1 \<le> nk" and "i < ni"
    and "b_view v i 0 \<noteq> 0" and "\<forall>k\<in>{1..<nk}. launch_tmpVar ni v i k \<noteq> 0"
    and "b_view w i 0 \<noteq> 0" and "\<forall>k\<in>{1..<nk}. launch_tmpVar ni w i k \<noteq> 0"
  shows "c_prime_view (naive_run ni nk v) i 0 = c_view v i 0 * (1 / b_view v i 0) \<and>
         y_prime_view (naive_run ni nk v) i 0 = y_view v i 0 * (1 / b_view v i 0) \<and>
         (\<forall>k\<in>{1..<nk}.
            launch_tmpVar ni v i k =
              b_view v i k - a_view v i k * c_prime_view (naive_run ni nk v) i (k - 1) \<and>
            c_prime_view (naive_run ni nk v) i k = c_view v i k * (1 / launch_tmpVar ni v i k) \<and>
            y_prime_view (naive_run ni nk v) i k =
              (y_view v i k - a_view v i k * y_prime_view (naive_run ni nk v) i (k - 1)) *
              (1 / launch_tmpVar ni v i k)) \<and>
         (\<forall>k<nk.
            y_view (solve_tridiagonal_kokkos_naive ni nk v) i k =
              (if k = nk - 1 then y_prime_view (naive_run ni nk v) i k
               else y_prime_view (naive_run ni nk v) i k -
                    c_prime_view (naive_run ni nk v) i k *
                    y_view (solve_tridiagonal_kokkos_naive ni nk v) i (k + 1))) \<and>
         (\<forall>k<nk.
            (if k = 0 then 0
             else a_view w i k * y_view (solve_tridiagonal_kokkos_naive ni nk w) i (k - 1)) +
            b_view w i k * y_view (solve_tridiagonal_kokkos_naive ni nk w) i k +
            (if k = nk - 1 then 0
             else c_view w i k * y_view (solve_tridiagonal_kokkos_naive ni nk w) i (k + 1)) =
            y_view w i k)"
proof -
  have cp: "c_prime_view (naive_run ni nk v) i k = row_c_prime v i k"
    and yp: "y_prime_view (naive_run ni nk v) i k = row_y_prime v i k"
    and sol: "y_view (solve_tridiagonal_kokkos_naive ni nk v) i k = row_result v nk i k"
    if "k < nk" for k
    using that assms(1,2) by (simp_all add: naive_run_eq solve_tridiagonal_kokkos_naive_eq)
  have first: "c_prime_view (naive_run ni nk v) i 0 = c_view v i 0 * (1 / b_view v i 0) \<and>
               y_prime_view (naive_run ni nk v) i 0 = y_view v i 0 * (1 / b_view v i 0)"
    using assms(1,3) by (simp add: cp yp)
  have fw: "launch_tmpVar ni v i k =
              b_view v i k - a_view v i k * c_prime_view (naive_run ni nk v) i (k - 1) \<and>
            c_prime_view (naive_run ni nk v) i k = c_view v i k * (1 / launch_tmpVar ni v i k) \<and>
            y_prime_view (naive_run ni nk v) i k =
              (y_view v i k - a_view v i k * y_prime_view (naive_run ni nk v) i (k - 1)) *
              (1 / launch_tmpVar ni v i k)"
    if "k \<in> {1..<nk}" for k
  proof -
    from that obtain j where j: "k = Suc j" "Suc j < nk" "j < nk" by (cases k) auto
    have t: "launch_tmpVar ni v i (Suc j) = row_pivot v i (Suc j)"
      using assms(2) by (simp add: launch_tmpVar_eq)
    have nz: "row_pivot v i (Suc j) \<noteq> 0"
      using assms(4) that unfolding j(1) t[symmetric] by blast
    show ?thesis
      unfolding j(1) t cp[OF j(2)] yp[OF j(2)]
      using nz by (simp add: cp[OF j(3)] yp[OF j(3)] row_c_prime_Suc row_pivot_Suc
          del: row_c_prime.simps(2))
  qed
  have bw: "y_view (solve_tridiagonal_kokkos_naive ni nk v) i k =
              (if k = nk - 1 then y_prime_view (naive_run ni nk v) i k
               else y_prime_view (naive_run ni nk v) i k -
                    c_prime_view (naive_run ni nk v) i k *
                    y_view (solve_tridiagonal_kokkos_naive ni nk v) i (k + 1))"
    if "k < nk" for k
  proof (cases "Suc k < nk")
    case True
    then have "k \<noteq> nk - 1" by simp
    then show ?thesis
      using True by (simp add: sol[OF that] sol[OF True] cp[OF that] yp[OF that]
          row_result.simps[of v nk i k])
  next
    case False
    with that have k: "k = nk - 1" by simp
    have "row_result v nk i k = row_y_prime v i k"
      using False by (simp add: row_result.simps[of v nk i k])
    with k show ?thesis
      unfolding sol[OF that] yp[OF that] by simp
  qed
  from first fw bw reconstruction_field[OF assms(1,2,5,6)] show ?thesis by blast
qed

text \<open>
  System \<open>0\<close> of two systems of three levels (\<open>a = c = -1\<close>, \<open>b = 3\<close>, \<open>y = 1\<close>), in
  binary64 for the reduced system and over the rationals for the original equations.
\<close>

theorem reconstruction_reduced_system_witness:
  "(1::nat) \<le> 3 \<and> (0::nat) < 2 \<and>
   b_view example_views 0 0 \<noteq> 0 \<and>
   launch_tmpVar 2 example_views 0 1 \<noteq> 0 \<and> launch_tmpVar 2 example_views 0 2 \<noteq> 0 \<and>
   b_view exact_views 0 0 \<noteq> 0 \<and>
   launch_tmpVar 2 exact_views 0 1 \<noteq> 0 \<and> launch_tmpVar 2 exact_views 0 2 \<noteq> 0 \<and>
   c_prime_view (naive_run 2 3 example_views) 0 0 =
     c_view example_views 0 0 * (1 / b_view example_views 0 0) \<and>
   c_prime_view (naive_run 2 3 example_views) 0 1 =
     c_view example_views 0 1 * (1 / launch_tmpVar 2 example_views 0 1) \<and>
   y_view (solve_tridiagonal_kokkos_naive 2 3 example_views) 0 2 =
     y_prime_view (naive_run 2 3 example_views) 0 2 \<and>
   y_view (solve_tridiagonal_kokkos_naive 2 3 example_views) 0 0 =
     y_prime_view (naive_run 2 3 example_views) 0 0 -
     c_prime_view (naive_run 2 3 example_views) 0 0 *
     y_view (solve_tridiagonal_kokkos_naive 2 3 example_views) 0 1 \<and>
   b_view exact_views 0 0 * y_view (solve_tridiagonal_kokkos_naive 2 3 exact_views) 0 0 +
   c_view exact_views 0 0 * y_view (solve_tridiagonal_kokkos_naive 2 3 exact_views) 0 1 =
     y_view exact_views 0 0 \<and>
   a_view exact_views 0 1 * y_view (solve_tridiagonal_kokkos_naive 2 3 exact_views) 0 0 +
   b_view exact_views 0 1 * y_view (solve_tridiagonal_kokkos_naive 2 3 exact_views) 0 1 +
   c_view exact_views 0 1 * y_view (solve_tridiagonal_kokkos_naive 2 3 exact_views) 0 2 =
     y_view exact_views 0 1 \<and>
   a_view exact_views 0 2 * y_view (solve_tridiagonal_kokkos_naive 2 3 exact_views) 0 1 +
   b_view exact_views 0 2 * y_view (solve_tridiagonal_kokkos_naive 2 3 exact_views) 0 2 =
     y_view exact_views 0 2 \<and>
   y_view (solve_tridiagonal_kokkos_naive 2 3 exact_views) 0 0 = 4 / 7 \<and>
   y_view (solve_tridiagonal_kokkos_naive 2 3 exact_views) 0 1 = 5 / 7 \<and>
   y_view (solve_tridiagonal_kokkos_naive 2 3 exact_views) 0 2 = 4 / 7"
proof -
  have h1: "(1::nat) \<le> 3" and h2: "(0::nat) < 2" by simp_all
  have h3: "b_view example_views 0 0 \<noteq> 0" by (simp add: example_views_def zero_double_def)
  have q: "launch_tmpVar 2 example_views 0 (Suc 0) \<noteq> 0"
          "launch_tmpVar 2 example_views 0 (Suc (Suc 0)) \<noteq> 0"
    by (simp_all add: launch_tmpVar_eq example_row_pivot zero_double_def)
  have h4: "\<forall>k\<in>{1..<3}. launch_tmpVar 2 example_views 0 k \<noteq> 0"
  proof
    fix k :: nat assume "k \<in> {1..<3}"
    then have "k = Suc 0 \<or> k = Suc (Suc 0)" by (simp only: levels_1_3)
    then show "launch_tmpVar 2 example_views 0 k \<noteq> 0" using q by blast
  qed
  have q': "launch_tmpVar 2 example_views 0 1 \<noteq> 0" "launch_tmpVar 2 example_views 0 2 \<noteq> 0"
    using q by (simp_all add: numeral_2_eq_2)
  have h5: "b_view exact_views 0 0 \<noteq> 0" by (simp add: exact_views_def)
  have p: "launch_tmpVar 2 exact_views 0 (Suc 0) \<noteq> 0"
          "launch_tmpVar 2 exact_views 0 (Suc (Suc 0)) \<noteq> 0"
    by (simp_all add: launch_tmpVar_eq exact_row_pivot)
  have h6: "\<forall>k\<in>{1..<3}. launch_tmpVar 2 exact_views 0 k \<noteq> 0"
  proof
    fix k :: nat assume "k \<in> {1..<3}"
    then have "k = Suc 0 \<or> k = Suc (Suc 0)" by (simp only: levels_1_3)
    then show "launch_tmpVar 2 exact_views 0 k \<noteq> 0" using p by blast
  qed
  have p': "launch_tmpVar 2 exact_views 0 1 \<noteq> 0" "launch_tmpVar 2 exact_views 0 2 \<noteq> 0"
    using p by (simp_all add: numeral_2_eq_2)
  note t = reconstruction_reduced_system[OF h1 h2 h3 h4 h5 h6]
  from t have g0: "c_prime_view (naive_run 2 3 example_views) 0 0 =
                   c_view example_views 0 0 * (1 / b_view example_views 0 0)"
    by blast
  from t have fw: "\<forall>k\<in>{1..<3}.
            launch_tmpVar 2 example_views 0 k =
              b_view example_views 0 k -
              a_view example_views 0 k * c_prime_view (naive_run 2 3 example_views) 0 (k - 1) \<and>
            c_prime_view (naive_run 2 3 example_views) 0 k =
              c_view example_views 0 k * (1 / launch_tmpVar 2 example_views 0 k) \<and>
            y_prime_view (naive_run 2 3 example_views) 0 k =
              (y_view example_views 0 k -
               a_view example_views 0 k * y_prime_view (naive_run 2 3 example_views) 0 (k - 1)) *
              (1 / launch_tmpVar 2 example_views 0 k)"
    by blast
  have "(1::nat) \<in> {1..<3}" by simp
  from fw[rule_format, OF this]
  have g1: "c_prime_view (naive_run 2 3 example_views) 0 1 =
            c_view example_views 0 1 * (1 / launch_tmpVar 2 example_views 0 1)"
    by blast
  from t have bw: "\<forall>k<3.
            y_view (solve_tridiagonal_kokkos_naive 2 3 example_views) 0 k =
              (if k = 3 - 1 then y_prime_view (naive_run 2 3 example_views) 0 k
               else y_prime_view (naive_run 2 3 example_views) 0 k -
                    c_prime_view (naive_run 2 3 example_views) 0 k *
                    y_view (solve_tridiagonal_kokkos_naive 2 3 example_views) 0 (k + 1))"
    by blast
  have g2: "y_view (solve_tridiagonal_kokkos_naive 2 3 example_views) 0 2 =
            y_prime_view (naive_run 2 3 example_views) 0 2"
    using bw[rule_format, of 2] by simp
  have g3: "y_view (solve_tridiagonal_kokkos_naive 2 3 example_views) 0 0 =
            y_prime_view (naive_run 2 3 example_views) 0 0 -
            c_prime_view (naive_run 2 3 example_views) 0 0 *
            y_view (solve_tridiagonal_kokkos_naive 2 3 example_views) 0 1"
    using bw[rule_format, of 0] by simp
  from t have rc: "\<forall>k<3.
            (if k = 0 then 0
             else a_view exact_views 0 k *
                  y_view (solve_tridiagonal_kokkos_naive 2 3 exact_views) 0 (k - 1)) +
            b_view exact_views 0 k * y_view (solve_tridiagonal_kokkos_naive 2 3 exact_views) 0 k +
            (if k = 3 - 1 then 0
             else c_view exact_views 0 k *
                  y_view (solve_tridiagonal_kokkos_naive 2 3 exact_views) 0 (k + 1)) =
            y_view exact_views 0 k"
    by blast
  have e0: "b_view exact_views 0 0 * y_view (solve_tridiagonal_kokkos_naive 2 3 exact_views) 0 0 +
            c_view exact_views 0 0 * y_view (solve_tridiagonal_kokkos_naive 2 3 exact_views) 0 1 =
            y_view exact_views 0 0"
    using rc[rule_format, of 0] by simp
  have e1: "a_view exact_views 0 1 * y_view (solve_tridiagonal_kokkos_naive 2 3 exact_views) 0 0 +
            b_view exact_views 0 1 * y_view (solve_tridiagonal_kokkos_naive 2 3 exact_views) 0 1 +
            c_view exact_views 0 1 * y_view (solve_tridiagonal_kokkos_naive 2 3 exact_views) 0 2 =
            y_view exact_views 0 1"
    using rc[rule_format, of 1] by (simp add: numeral_2_eq_2)
  have e2: "a_view exact_views 0 2 * y_view (solve_tridiagonal_kokkos_naive 2 3 exact_views) 0 1 +
            b_view exact_views 0 2 * y_view (solve_tridiagonal_kokkos_naive 2 3 exact_views) 0 2 =
            y_view exact_views 0 2"
    using rc[rule_format, of 2] by simp
  have r: "y_view (solve_tridiagonal_kokkos_naive 2 3 exact_views) 0 k =
           row_result exact_views (Suc (Suc (Suc 0))) 0 k" if "k < 3" for k
    using that by (simp add: solve_tridiagonal_kokkos_naive_eq numeral_3_eq_3)
  have v: "y_view (solve_tridiagonal_kokkos_naive 2 3 exact_views) 0 0 = 4 / 7"
          "y_view (solve_tridiagonal_kokkos_naive 2 3 exact_views) 0 1 = 5 / 7"
          "y_view (solve_tridiagonal_kokkos_naive 2 3 exact_views) 0 2 = 4 / 7"
    using r[of 0] r[of "Suc 0"] r[of "Suc (Suc 0)"]
    by (simp_all add: exact_row_result numeral_2_eq_2)
  from h1 h2 h3 q' h5 p' g0 g1 g2 g3 e0 e1 e2 v show ?thesis by blast
qed

text \<open>
  In binary64 the original equations can fail by the whole right-hand side although no pivot
  degenerates: one system of two levels with \<open>a = [0, 1]\<close>, \<open>b = [2\<^sup>-\<^sup>7\<^sup>0, 1]\<close>,
  \<open>c = [1, 0]\<close>, \<open>y = [1, 2]\<close>. The pivot of level \<open>1\<close> is \<open>1 - 2\<^sup>7\<^sup>0\<close>, rounded to
  \<open>-2\<^sup>7\<^sup>0\<close>; the solver returns \<open>[0, 1]\<close>, and the equation of level \<open>1\<close> gives
  \<open>1 * 0 + 1 * 1 = 1\<close>, computed exactly or in binary64, where \<open>y\<close> is \<open>2\<close>.
\<close>

theorem reconstruction_binary64_counterexample:
  "b_view tiny_pivot_views 0 0 \<noteq> 0 \<and>
   launch_tmpVar 1 tiny_pivot_views 0 1 = Double (- (2 ^ 70)) \<and>
   launch_tmpVar 1 tiny_pivot_views 0 1 \<noteq> 0 \<and>
   y_view (solve_tridiagonal_kokkos_naive 1 2 tiny_pivot_views) 0 0 = Double 0 \<and>
   y_view (solve_tridiagonal_kokkos_naive 1 2 tiny_pivot_views) 0 1 = Double 1 \<and>
   a_view tiny_pivot_views 0 1 * y_view (solve_tridiagonal_kokkos_naive 1 2 tiny_pivot_views) 0 0 +
   b_view tiny_pivot_views 0 1 * y_view (solve_tridiagonal_kokkos_naive 1 2 tiny_pivot_views) 0 1 =
     Double 1 \<and>
   rat_of (a_view tiny_pivot_views 0 1) *
     rat_of (y_view (solve_tridiagonal_kokkos_naive 1 2 tiny_pivot_views) 0 0) +
   rat_of (b_view tiny_pivot_views 0 1) *
     rat_of (y_view (solve_tridiagonal_kokkos_naive 1 2 tiny_pivot_views) 0 1) = 1 \<and>
   y_view tiny_pivot_views 0 1 = Double 2 \<and>
   a_view tiny_pivot_views 0 1 * y_view (solve_tridiagonal_kokkos_naive 1 2 tiny_pivot_views) 0 0 +
   b_view tiny_pivot_views 0 1 * y_view (solve_tridiagonal_kokkos_naive 1 2 tiny_pivot_views) 0 1 \<noteq>
     y_view tiny_pivot_views 0 1"
proof -
  have r: "y_view (solve_tridiagonal_kokkos_naive 1 2 tiny_pivot_views) 0 k =
           row_result tiny_pivot_views (Suc (Suc 0)) 0 k" if "k < 2" for k
    using that by (simp add: solve_tridiagonal_kokkos_naive_eq numeral_2_eq_2)
  have x: "y_view (solve_tridiagonal_kokkos_naive 1 2 tiny_pivot_views) 0 0 = Double 0"
          "y_view (solve_tridiagonal_kokkos_naive 1 2 tiny_pivot_views) 0 1 = Double 1"
    using r[of 0] r[of "Suc 0"] by (simp_all add: tiny_pivot_result)
  have p: "launch_tmpVar 1 tiny_pivot_views 0 1 = Double (- (2 ^ 70))"
    using launch_tmpVar_eq[of "Suc 0" 0 1 tiny_pivot_views] by (simp add: tiny_pivot_result)
  show ?thesis
    unfolding x p by (simp add: tiny_pivot_views_def binary64_eval)
qed

text \<open>
  C3. If \<open>b[i][0] = 0\<close> for a system \<open>i\<close>, the solver sets \<open>c_prime[i][0] = 0\<close> and
  \<open>y_prime[i][0] = 0\<close>; the first-level kernel takes the branch that only stores the two
  zeros (it contains no division), and \<open>result[i][0]\<close> comes from the backward substitution
  alone: \<open>0 - 0 * result[i][1]\<close> (and \<open>0\<close> when there is no level \<open>1\<close>). The solver is a
  total function: there is no abort.
\<close>

theorem degenerate_first_pivot:
  assumes "1 \<le> nk" and "i < ni" and "b_view v i 0 = 0"
  shows "c_prime_view (naive_run ni nk v) i 0 = 0 \<and>
         y_prime_view (naive_run ni nk v) i 0 = 0 \<and>
         (\<forall>s. b_view s i 0 = 0 \<longrightarrow>
            forward_sweep_first i s =
              s\<lparr>c_prime_view := store (c_prime_view s) i 0 0,
                y_prime_view := store (y_prime_view s) i 0 0\<rparr>) \<and>
         y_view (solve_tridiagonal_kokkos_naive ni nk v) i 0 =
           (if nk = 1 then 0
            else 0 - 0 * y_view (solve_tridiagonal_kokkos_naive ni nk v) i 1)"
  using assms
  by (auto simp: naive_run_eq solve_tridiagonal_kokkos_naive_eq forward_sweep_first_def
        row_result.simps[of v nk i 0])

theorem degenerate_first_pivot_witness:
  "(1::nat) \<le> 3 \<and> (0::nat) < 2 \<and> b_view corrupted_views 0 0 = 0 \<and>
   c_prime_view (naive_run 2 3 corrupted_views) 0 0 = 0 \<and>
   y_prime_view (naive_run 2 3 corrupted_views) 0 0 = 0 \<and>
   y_view (solve_tridiagonal_kokkos_naive 2 3 corrupted_views) 0 0 =
     0 - 0 * y_view (solve_tridiagonal_kokkos_naive 2 3 corrupted_views) 0 1"
proof -
  have h1: "(1::nat) \<le> 3" and h2: "(0::nat) < 2" by simp_all
  have h3: "b_view corrupted_views 0 0 = 0"
    by (simp add: corrupted_views_def example_views_def zero_double_def)
  note t = degenerate_first_pivot[OF h1 h2 h3]
  from t have c: "c_prime_view (naive_run 2 3 corrupted_views) 0 0 = 0"
    and y: "y_prime_view (naive_run 2 3 corrupted_views) 0 0 = 0"
    by blast+
  from t have "y_view (solve_tridiagonal_kokkos_naive 2 3 corrupted_views) 0 0 =
      (if (3::nat) = 1 then 0
       else 0 - 0 * y_view (solve_tridiagonal_kokkos_naive 2 3 corrupted_views) 0 1)"
    by blast
  then have r: "y_view (solve_tridiagonal_kokkos_naive 2 3 corrupted_views) 0 0 =
      0 - 0 * y_view (solve_tridiagonal_kokkos_naive 2 3 corrupted_views) 0 1"
    by (simp only: numeral_eq_one_iff num.distinct if_False)
  from h1 h2 h3 c y r show ?thesis by blast
qed



text \<open>
  C5, as amended. When \<open>nk = 1\<close>, the solver returns for every system \<open>i\<close> the product
  \<open>result[i][0] = y[i][0] * (1 / b[i][0])\<close> of \<open>y\<close> with the reciprocal of \<open>b\<close> if
  \<open>b[i][0] \<noteq> 0\<close>, and \<open>0\<close> otherwise; in exact arithmetic (a field) that product is
  \<open>y[i][0] / b[i][0]\<close>. For \<open>ni = nk = 1\<close>, \<open>a = [[0]]\<close>, \<open>b = [[2.0]]\<close>, \<open>c = [[0]]\<close>,
  \<open>y = [[1.0]]\<close> the binary64 result is exactly \<open>[[0.5]]\<close> (the witness).
\<close>

theorem single_level_closed_form:
  fixes v :: "'a::{zero,one,times,minus,inverse} views" and w :: "'b::field views"
  assumes "i < ni"
  shows "y_view (solve_tridiagonal_kokkos_naive ni 1 v) i 0 =
           (if b_view v i 0 \<noteq> 0 then y_view v i 0 * (1 / b_view v i 0) else 0) \<and>
         y_view (solve_tridiagonal_kokkos_naive ni 1 w) i 0 =
           (if b_view w i 0 \<noteq> 0 then y_view w i 0 / b_view w i 0 else 0)"
  using single_level_generic[OF assms, of v] single_level_generic[OF assms, of w]
  by simp

theorem single_level_closed_form_witness:
  "(0::nat) < 1 \<and>
   y_view (solve_tridiagonal_kokkos_naive 1 1 scenario_views) 0 0 =
     y_view scenario_views 0 0 * (1 / b_view scenario_views 0 0) \<and>
   y_view (solve_tridiagonal_kokkos_naive 1 1 scenario_views) 0 0 = Double (1 / 2) \<and>
   y_view (solve_tridiagonal_kokkos_naive 1 1 exact_views) 0 0 = 1 / 3"
proof -
  have h: "(0::nat) < 1" by simp
  have b: "b_view scenario_views 0 0 \<noteq> 0" "b_view exact_views 0 0 \<noteq> 0"
    by (simp_all add: scenario_views_def exact_views_def zero_double_def)
  have e: "y_view scenario_views 0 0 * (1 / b_view scenario_views 0 0) = Double (1 / 2)"
    by (simp add: scenario_views_def binary64_eval)
  have x: "y_view exact_views 0 0 / b_view exact_views 0 0 = 1 / 3"
    by (simp add: exact_views_def)
  from single_level_closed_form[OF h, of scenario_views exact_views] b e x h
  show ?thesis by simp
qed

text \<open>
  In binary64 the product with the reciprocal is not the quotient: for \<open>b = y = 49\<close> the
  solver returns \<open>49 * (1/49) = 1 - 2\<^sup>-\<^sup>5\<^sup>3\<close>, while \<open>49 / 49 = 1\<close>.
\<close>

theorem single_level_quotient_counterexample:
  "b_view forty_nine_views 0 0 \<noteq> 0 \<and>
   y_view (solve_tridiagonal_kokkos_naive 1 1 forty_nine_views) 0 0 \<noteq>
     y_view forty_nine_views 0 0 / b_view forty_nine_views 0 0 \<and>
   y_view forty_nine_views 0 0 / b_view forty_nine_views 0 0 = Double 1"
  unfolding forty_nine_result
  by (simp add: forty_nine_views_def binary64_eval)

text \<open>
  C6. If every pivot of system \<open>i\<close> degenerates (\<open>b[i][0] = 0\<close> and \<open>tmpVar = 0\<close> at every
  level \<open>k \<ge> 1\<close>), the solver returns \<open>result[i][k] = 0\<close> at every level. The only law of
  arithmetic used is \<open>0 - 0 * 0 = 0\<close>, which holds in binary64 and in exact arithmetic.
\<close>

theorem all_pivots_degenerate:
  fixes v :: "'a::{zero,one,times,minus,inverse} views"
  assumes "1 \<le> nk" and "i < ni" and "b_view v i 0 = 0"
    and "\<forall>k\<in>{1..<nk}. launch_tmpVar ni v i k = 0"
    and "(0::'a) - 0 * 0 = 0"
  shows "\<forall>k<nk. y_view (solve_tridiagonal_kokkos_naive ni nk v) i k = 0"
proof -
  have piv: "\<forall>k. 1 \<le> k \<and> k < nk \<longrightarrow> row_pivot v i k = 0"
    using assms(2,4) by (simp add: launch_tmpVar_eq)
  have z: "row_c_prime v i k = 0" "row_y_prime v i k = 0" if "k < nk" for k
    using all_degenerate_rows[OF assms(3) piv that] by simp_all
  have "k < nk \<Longrightarrow> row_result v nk i k = 0" for k
  proof (induction "nk - k" arbitrary: k)
    case 0
    then show ?case by simp
  next
    case (Suc d)
    show ?case
    proof (cases "Suc k < nk")
      case True
      then have "row_result v nk i (Suc k) = 0"
        using Suc.hyps by (intro Suc.hyps(1)) auto
      with True Suc.prems show ?thesis
        by (simp add: row_result.simps[of v nk i k] z assms(5))
    next
      case False
      with Suc.prems show ?thesis
        by (simp add: row_result.simps[of v nk i k] z)
    qed
  qed
  then show ?thesis
    using assms(1,2) by (simp add: solve_tridiagonal_kokkos_naive_eq)
qed

theorem all_pivots_degenerate_witness:
  "(1::nat) \<le> 3 \<and> (0::nat) < 2 \<and> b_view corrupted_views 0 0 = 0 \<and>
   launch_tmpVar 2 corrupted_views 0 1 = 0 \<and> launch_tmpVar 2 corrupted_views 0 2 = 0 \<and>
   (0::double) - 0 * 0 = 0 \<and>
   y_view (solve_tridiagonal_kokkos_naive 2 3 corrupted_views) 0 0 = 0 \<and>
   y_view (solve_tridiagonal_kokkos_naive 2 3 corrupted_views) 0 1 = 0 \<and>
   y_view (solve_tridiagonal_kokkos_naive 2 3 corrupted_views) 0 2 = 0"
proof -
  have h1: "(1::nat) \<le> 3" and h2: "(0::nat) < 2" by simp_all
  have h3: "b_view corrupted_views 0 0 = 0"
    by (simp add: corrupted_views_def example_views_def zero_double_def)
  have p: "launch_tmpVar 2 corrupted_views 0 (Suc 0) = 0"
          "launch_tmpVar 2 corrupted_views 0 (Suc (Suc 0)) = 0"
    by (simp_all add: launch_tmpVar_eq corrupted_row_pivot)
  have h4: "\<forall>k\<in>{1..<3}. launch_tmpVar 2 corrupted_views 0 k = 0"
  proof
    fix k :: nat assume "k \<in> {1..<3}"
    then have "k = Suc 0 \<or> k = Suc (Suc 0)" by (simp only: levels_1_3)
    then show "launch_tmpVar 2 corrupted_views 0 k = 0" using p by blast
  qed
  have p': "launch_tmpVar 2 corrupted_views 0 1 = 0" "launch_tmpVar 2 corrupted_views 0 2 = 0"
    using p by (simp_all add: numeral_2_eq_2)
  have h5: "(0::double) - 0 * 0 = 0" by (simp add: binary64_eval)
  note t = all_pivots_degenerate[OF h1 h2 h3 h4 h5, rule_format]
  have k: "(0::nat) < 3" "(1::nat) < 3" "(2::nat) < 3" by simp_all
  from t[OF k(1)] t[OF k(2)] t[OF k(3)] h1 h2 h3 p' h5 show ?thesis by blast
qed

text \<open>
  C7. For every system \<open>i < ni\<close> and level \<open>k < nk\<close> the generator stores
  \<open>a[i][k] = -0.5\<close> for \<open>k > 0\<close> and \<open>0\<close> for \<open>k = 0\<close>;
  \<open>b[i][k] = 2.0 + 0.1 * sin(pi*(i+1)/ni)\<close>, the same at every level and greater than
  \<open>1.8\<close>; \<open>c[i][k] = -0.5\<close> for \<open>k < nk-1\<close> and \<open>0\<close> for \<open>k = nk-1\<close>; and
  \<open>y[i][k] = sin(pi*(i+1)/ni) * cos(pi*(k+1)/nk)\<close>. The operations are those of binary64,
  \<open>pi\<close> is the constant of the code, and of \<^verbatim>\<open>std::sin\<close> only \<open>|sin x| \<le> 1\<close> is assumed.
\<close>

theorem generator_formulas:
  assumes "i < ni" and "k < nk" and "\<forall>x. \<bar>rat_of (std_sin x)\<bar> \<le> 1"
  shows "a_view (init_matrices std_sin std_cos ni nk) i k =
           (if k > 0 then literal (- 0.5) else literal 0.0) \<and>
         b_view (init_matrices std_sin std_cos ni nk) i k =
           literal 2.0 +
           literal 0.1 * std_sin (pi_const * double_of_int (i + 1) / double_of_int ni) \<and>
         b_view (init_matrices std_sin std_cos ni nk) i k =
           b_view (init_matrices std_sin std_cos ni nk) i 0 \<and>
         1.8 < rat_of (b_view (init_matrices std_sin std_cos ni nk) i k) \<and>
         c_view (init_matrices std_sin std_cos ni nk) i k =
           (if k < nk - 1 then literal (- 0.5) else literal 0.0) \<and>
         y_view (init_matrices std_sin std_cos ni nk) i k =
           std_sin (pi_const * double_of_int (i + 1) / double_of_int ni) *
           std_cos (pi_const * double_of_int (k + 1) / double_of_int nk)"
proof -
  define t where "t = std_sin (pi_const * double_of_int (i + 1) / double_of_int ni)"
  have "\<bar>rat_of t\<bar> \<le> 1" using assms(3) by (simp add: t_def)
  then have "rat_of (literal 1.9) \<le> rat_of (literal 2.0 + literal 0.1 * t)"
    using generated_diagonal_bounds by blast
  moreover have "rat_of (literal 1.9) = 4278419646001971 / 2251799813685248"
    unfolding literal_values by simp
  ultimately have "1.8 < rat_of (literal 2.0 + literal 0.1 * t)" by simp
  moreover have "b_view (init_matrices std_sin std_cos ni nk) i k = literal 2.0 + literal 0.1 * t"
    using assms(1,2) unfolding init_matrices_eq t_def by simp
  ultimately have "1.8 < rat_of (b_view (init_matrices std_sin std_cos ni nk) i k)" by simp
  then show ?thesis
    using assms(1,2) unfolding init_matrices_eq by simp
qed

text \<open>
  The generator of \<^verbatim>\<open>main\<close> (\<open>Nr = 50\<close>) for four systems: system \<open>3\<close>, levels \<open>0\<close>
  and \<open>49\<close>. The argument of the sine is \<^verbatim>\<open>pi\<close> itself, \<open>0.1 * sin(pi)\<close> is absorbed by
  the rounding of the sum, and the code stores \<open>b = 2.0\<close>.
\<close>

theorem generator_formulas_witness:
  "(3::nat) < 4 \<and> (0::nat) < 50 \<and> (49::nat) < 50 \<and> \<bar>rat_of (sample_sin pi_const)\<bar> \<le> 1 \<and>
   a_view (init_matrices sample_sin sample_cos 4 50) 3 0 = Double 0 \<and>
   a_view (init_matrices sample_sin sample_cos 4 50) 3 49 = Double (- 1 / 2) \<and>
   c_view (init_matrices sample_sin sample_cos 4 50) 3 0 = Double (- 1 / 2) \<and>
   c_view (init_matrices sample_sin sample_cos 4 50) 3 49 = Double 0 \<and>
   1.8 < rat_of (b_view (init_matrices sample_sin sample_cos 4 50) 3 49) \<and>
   b_view (init_matrices sample_sin sample_cos 4 50) 3 0 = Double 2 \<and>
   b_view (init_matrices sample_sin sample_cos 4 50) 3 49 = Double 2 \<and>
   y_view (init_matrices sample_sin sample_cos 4 50) 3 49 =
     Double (- (4967757600021511 / 40564819207303340847894502572032))"
proof -
  have h: "(3::nat) < 4" "(0::nat) < 50" "(49::nat) < 50" by simp_all
  have s: "\<bar>rat_of (sample_sin pi_const)\<bar> \<le> 1" using sample_bounded by blast
  note t0 = generator_formulas[OF h(1) h(2) sample_bounded, of sample_cos]
  note t49 = generator_formulas[OF h(1) h(3) sample_bounded, of sample_cos]
  have l: "literal 0.0 = Double 0" "literal (- 0.5) = Double (- 1 / 2)"
    unfolding literal_values by simp_all
  from t0 have a0: "a_view (init_matrices sample_sin sample_cos 4 50) 3 0 = Double 0"
    and c0: "c_view (init_matrices sample_sin sample_cos 4 50) 3 0 = Double (- 1 / 2)"
    and b0: "b_view (init_matrices sample_sin sample_cos 4 50) 3 0 = Double 2"
    unfolding sample_arguments sample_values l by simp_all
  from t49 have a49: "a_view (init_matrices sample_sin sample_cos 4 50) 3 49 = Double (- 1 / 2)"
    and c49: "c_view (init_matrices sample_sin sample_cos 4 50) 3 49 = Double 0"
    and b49: "b_view (init_matrices sample_sin sample_cos 4 50) 3 49 = Double 2"
    and g49: "1.8 < rat_of (b_view (init_matrices sample_sin sample_cos 4 50) 3 49)"
    and y49: "y_view (init_matrices sample_sin sample_cos 4 50) 3 49 =
                Double (- (4967757600021511 / 40564819207303340847894502572032))"
    unfolding sample_arguments sample_values l by simp_all
  from h s a0 a49 c0 c49 g49 b0 b49 y49 show ?thesis by blast
qed

text \<open>
  C8. A call to either solver leaves every entry of the coefficient views \<open>a\<close>, \<open>b\<close>
  and \<open>c\<close> as it was before the call, for all inputs: only \<open>y\<close> and the temporaries are
  written. For the fused solver this holds for every team size and whatever the two scratch
  requests return.
\<close>

theorem coefficients_unchanged:
  "a_view (solve_tridiagonal_kokkos_naive ni nk v) = a_view v \<and>
   b_view (solve_tridiagonal_kokkos_naive ni nk v) = b_view v \<and>
   c_view (solve_tridiagonal_kokkos_naive ni nk v) = c_view v \<and>
   a_view (solve_tridiagonal_kokkos_optimized ni nk team_size c_prime0 y_prime0 v) = a_view v \<and>
   b_view (solve_tridiagonal_kokkos_optimized ni nk team_size c_prime0 y_prime0 v) = b_view v \<and>
   c_view (solve_tridiagonal_kokkos_optimized ni nk team_size c_prime0 y_prime0 v) = c_view v \<and>
   a_view (dispatch_with_scratch ni nk team_size c_prime_ok y_prime_ok c_prime0 y_prime0 v) =
     a_view v \<and>
   b_view (dispatch_with_scratch ni nk team_size c_prime_ok y_prime_ok c_prime0 y_prime0 v) =
     b_view v \<and>
   c_view (dispatch_with_scratch ni nk team_size c_prime_ok y_prime_ok c_prime0 y_prime0 v) =
     c_view v"
proof -
  have "coeffs (solve_tridiagonal_kokkos_naive ni nk v) = coeffs (naive_run ni nk v)"
    by (simp add: solve_tridiagonal_kokkos_naive_def coeffs_def Let_def)
  then have n: "coeffs (solve_tridiagonal_kokkos_naive ni nk v) = coeffs v"
    by (simp add: naive_run_coeffs)
  from n fused_coeffs(1)[of ni nk team_size c_prime_ok y_prime_ok c_prime0 y_prime0 v]
    fused_coeffs(2)[of ni nk team_size c_prime0 y_prime0 v]
  show ?thesis by (simp add: coeffs_def)
qed

text \<open>
  C9. For every generator-produced input (\<open>ni \<ge> 1\<close>, \<open>nk \<ge> 1\<close>) the degenerate-pivot
  branch is never taken: \<open>b[i][0] \<ge> 1.9 > 0\<close> for every system, every forward-sweep
  \<open>tmpVar\<close> is at least \<open>b[i][k] - 0.5\<close> and strictly positive, and every \<open>c_prime\<close> value
  lies in \<open>(-1, 0]\<close>; so every test \<^verbatim>\<open>!= 0.0\<close> succeeds and every division is by a
  nonzero value. Generator and solver compute in binary64; \<open>1.9\<close> is the literal of that
  type, which is the value of \<open>b\<close> when the sine is \<open>-1\<close>, and of \<^verbatim>\<open>std::sin\<close> only
  \<open>|sin x| \<le> 1\<close> is assumed.
\<close>

theorem generated_input_never_degenerate:
  assumes "1 \<le> ni" and "1 \<le> nk" and "i < ni" and "\<forall>x. \<bar>rat_of (std_sin x)\<bar> \<le> 1"
  shows "rat_of (literal 1.9) \<le> rat_of (b_view (init_matrices std_sin std_cos ni nk) i 0) \<and>
         b_view (parallel_for i forward_sweep_first
                   (naive_alloc (init_matrices std_sin std_cos ni nk))) i 0 \<noteq> 0 \<and>
         (\<forall>k\<in>{1..<nk}.
            launch_tmpVar ni (init_matrices std_sin std_cos ni nk) i k \<noteq> 0 \<and>
            0 < rat_of (launch_tmpVar ni (init_matrices std_sin std_cos ni nk) i k) \<and>
            rat_of (b_view (init_matrices std_sin std_cos ni nk) i k) - 0.5 \<le>
              rat_of (launch_tmpVar ni (init_matrices std_sin std_cos ni nk) i k)) \<and>
         (\<forall>k<nk.
            - 1 < rat_of (c_prime_view (naive_run ni nk (init_matrices std_sin std_cos ni nk)) i k) \<and>
            rat_of (c_prime_view (naive_run ni nk (init_matrices std_sin std_cos ni nk)) i k) \<le> 0)"
proof -
  define v where "v = init_matrices std_sin std_cos ni nk"
  define t where "t = std_sin (pi_const * double_of_int (i + 1) / double_of_int ni)"
  have "\<bar>rat_of t\<bar> \<le> 1" using assms(4) by (simp add: t_def)
  then have d: "rat_of (literal 1.9) \<le> rat_of (literal 2.0 + literal 0.1 * t)"
               "rat_of (literal 2.0 + literal 0.1 * t) \<le> 3"
    using generated_diagonal_bounds by blast+
  have l19: "rat_of (literal 1.9) = 4278419646001971 / 2251799813685248"
    unfolding literal_values by simp
  have bv: "b_view v i k = literal 2.0 + literal 0.1 * t" if "k < nk" for k
    using assms(3) that unfolding v_def init_matrices_eq t_def by simp
  have b: "\<forall>k<nk. 9 / 5 \<le> rat_of (b_view v i k) \<and> rat_of (b_view v i k) \<le> 3"
    using d l19 by (simp add: bv)
  have l: "literal 0.0 = Double 0" "literal (- 0.5) = Double (- 1 / 2)"
    unfolding literal_values by simp_all
  have a: "\<forall>k<nk. a_view v i k = (if k > 0 then Double (- 1 / 2) else Double 0)"
    using assms(3) unfolding v_def init_matrices_eq l by simp
  have c: "\<forall>k<nk. c_view v i k = (if k < nk - 1 then Double (- 1 / 2) else Double 0)"
    using assms(3) unfolding v_def init_matrices_eq l by simp
  note bounds = generated_row_bounds[OF b a c]
  have b0: "rat_of (literal 1.9) \<le> rat_of (b_view v i 0)"
    using d(1) assms(2) by (simp add: bv)
  have "rat_of (b_view v i 0) \<noteq> 0" using b0 l19 by simp
  then have "b_view v i 0 \<noteq> 0" by (rule rat_of_nonzero)
  then have first: "b_view (parallel_for i forward_sweep_first (naive_alloc v)) i 0 \<noteq> 0"
    by (simp add: pass_forward_sweep_first naive_alloc_def)
  have piv: "launch_tmpVar ni v i k \<noteq> 0 \<and> 0 < rat_of (launch_tmpVar ni v i k) \<and>
             rat_of (b_view v i k) - 0.5 \<le> rat_of (launch_tmpVar ni v i k)"
    if "k \<in> {1..<nk}" for k
  proof -
    from that have k: "1 \<le> k" "k < nk" by simp_all
    have p: "rat_of (b_view v i k) - 1 / 2 \<le> rat_of (row_pivot v i k)"
      using bounds[OF k(2)] by simp
    moreover have "9 / 5 \<le> rat_of (b_view v i k)" using b k(2) by simp
    ultimately have pos: "0 < rat_of (row_pivot v i k)" by simp
    then have "row_pivot v i k \<noteq> 0" by (intro rat_of_nonzero) simp
    with p pos show ?thesis
      by (simp add: launch_tmpVar_eq[OF k(1) assms(3)])
  qed
  have cp: "- 1 < rat_of (c_prime_view (naive_run ni nk v) i k) \<and>
            rat_of (c_prime_view (naive_run ni nk v) i k) \<le> 0"
    if "k < nk" for k
    using bounds[OF that] that assms(3) by (simp add: naive_run_eq[OF assms(2)])
  show ?thesis
    using b0 first piv cp unfolding v_def by simp
qed

text \<open>The generator of \<^verbatim>\<open>main\<close> for four systems of fifty levels, system \<open>3\<close>.\<close>

theorem generated_input_never_degenerate_witness:
  "(1::nat) \<le> 4 \<and> (1::nat) \<le> 50 \<and> (3::nat) < 4 \<and> \<bar>rat_of (sample_sin pi_const)\<bar> \<le> 1 \<and>
   rat_of (literal 1.9) \<le> rat_of (b_view (init_matrices sample_sin sample_cos 4 50) 3 0) \<and>
   launch_tmpVar 4 (init_matrices sample_sin sample_cos 4 50) 3 49 \<noteq> 0 \<and>
   0 < rat_of (launch_tmpVar 4 (init_matrices sample_sin sample_cos 4 50) 3 49) \<and>
   - 1 < rat_of (c_prime_view (naive_run 4 50 (init_matrices sample_sin sample_cos 4 50)) 3 49) \<and>
   rat_of (c_prime_view (naive_run 4 50 (init_matrices sample_sin sample_cos 4 50)) 3 49) \<le> 0"
proof -
  have h: "(1::nat) \<le> 4" "(1::nat) \<le> 50" "(3::nat) < 4" by simp_all
  have s: "\<bar>rat_of (sample_sin pi_const)\<bar> \<le> 1" using sample_bounded by blast
  have k: "(49::nat) \<in> {1..<50}" "(49::nat) < 50" by simp_all
  from generated_input_never_degenerate[OF h sample_bounded, of sample_cos] h s k
  show ?thesis by blast
qed

text \<open>
  C10. \<^verbatim>\<open>solve_tridiagonal_kokkos\<close> of the demo variant and
  \<^verbatim>\<open>solve_tridiagonal_kokkos_naive\<close> of the reference variant compute the same function:
  for every input they return the same views.
\<close>

theorem demo_naive_same_function:
  "solve_tridiagonal_kokkos ni nk v = solve_tridiagonal_kokkos_naive ni nk v"
  by (simp add: solve_tridiagonal_kokkos_def solve_tridiagonal_kokkos_naive_def demo_kernels
        naive_run_def naive_forward_def naive_alloc_def Let_def)

end
